theory Spec2Isabelle
  imports Main "HOL-Library.Word"
begin

section \<open>Frames and the external image library\<close>

text \<open>
  A frame is OpenCV's NumPy array of 8-bit samples: two-dimensional (rows of samples)
  for a grayscale image, three-dimensional (rows of pixels, each a list of channel
  samples) for a colour image. A snapshot is the byte string that \<open>cv2.imencode\<close> returns.
\<close>

type_synonym sample = "8 word"
type_synonym bytes = "8 word list"

datatype frame = Gray "sample list list" | Color "sample list list list"

fun ndim :: "frame \<Rightarrow> nat" where
  "ndim (Gray rows) = 2"
| "ndim (Color rows) = 3"

text \<open>The array that \<open>cv2.cvtColor(img, cv2.COLOR_BGR2HSV)\<close> returns: three channels
  (hue, saturation, value) for every pixel.\<close>

type_synonym hsv_frame = "(sample \<times> sample \<times> sample) list list"

text \<open>
  The functions of the libraries the editor calls (OpenCV, NumPy's floating-point
  arithmetic, fuzzywuzzy). They are not code of the editor: every operation below takes
  them as a parameter, and the theorems hold for every choice of them.
  \<^item> \<open>imencode_jpg img\<close> is \<open>cv2.imencode('.jpg', img, [IMWRITE_JPEG_QUALITY, 90])\<close>,
    \<open>imdecode buf\<close> is \<open>cv2.imdecode(buf, IMREAD_UNCHANGED)\<close>, which returns \<open>None\<close>
    for a buffer it cannot decode;
  \<^item> \<open>scale_abs v s\<close> is what \<open>cv2.convertScaleAbs(_, alpha=v / 100.0, beta=0)\<close> computes
    for one sample (floating point), \<open>sat_scale v s\<close> is
    \<open>np.clip(float32(s) * (v / 100.0), 0, 255)\<close> converted back to \<open>uint8\<close>;
  \<^item> \<open>ratio a b\<close> is \<open>fuzz.ratio(a, b)\<close>, a score from 0 to 100.
\<close>

record extern =
  imencode_jpg :: "frame \<Rightarrow> bytes"
  imdecode :: "bytes \<Rightarrow> frame option"
  BGR2GRAY :: "frame \<Rightarrow> frame"
  GRAY2BGR :: "frame \<Rightarrow> frame"
  BGR2HSV :: "frame \<Rightarrow> hsv_frame"
  HSV2BGR :: "hsv_frame \<Rightarrow> frame"
  BGR2YCrCb :: "frame \<Rightarrow> frame"
  YCrCb2BGR :: "frame \<Rightarrow> frame"
  GaussianBlur15 :: "frame \<Rightarrow> frame"
  filter2D_sharpen :: "frame \<Rightarrow> frame"
  Canny_100_200 :: "frame \<Rightarrow> frame"
  transform_sepia :: "frame \<Rightarrow> frame"
  equalizeHist :: "sample list list \<Rightarrow> sample list list"
  adaptiveThreshold :: "frame \<Rightarrow> frame"
  rotate_ccw :: "frame \<Rightarrow> frame"
  rotate_cw :: "frame \<Rightarrow> frame"
  flip :: "int \<Rightarrow> frame \<Rightarrow> frame"
  scale_abs :: "int \<Rightarrow> sample \<Rightarrow> sample"
  sat_scale :: "int \<Rightarrow> sample \<Rightarrow> sample"
  ratio :: "string \<Rightarrow> string \<Rightarrow> nat"

fun map_samples :: "(sample \<Rightarrow> sample) \<Rightarrow> frame \<Rightarrow> frame" where
  "map_samples f (Gray rows) = Gray (map (map f) rows)"
| "map_samples f (Color rows) = Color (map (map (map f)) rows)"

fun samples :: "frame \<Rightarrow> sample list" where
  "samples (Gray rows) = concat rows"
| "samples (Color rows) = concat (concat rows)"

section \<open>Utilities\<close>

definition clamp :: "int \<Rightarrow> int \<Rightarrow> int \<Rightarrow> int" where
  "clamp val lo hi = max lo (min hi val)"

definition compress_image :: "extern \<Rightarrow> frame \<Rightarrow> bytes" where
  "compress_image cv img = imencode_jpg cv img"

definition decompress_image :: "extern \<Rightarrow> bytes \<Rightarrow> frame option" where
  "decompress_image cv buffer = imdecode cv buffer"

section \<open>The editor session\<close>

text \<open>
  The fields of \<open>MainWindow\<close> that the history manager, the adjustment engine and the
  command interpreter read and write. \<open>brightness_base\<close> and \<open>contrast_base\<close> are the
  attributes \<open>_brightness_base\<close> and \<open>_contrast_base\<close>, \<open>None\<close> when the attribute does
  not exist (\<open>hasattr\<close> is false). The four slider fields are the values held by the Qt
  sliders. Python lists are lists with the first element at index 0: \<open>append\<close> adds at
  the end, \<open>pop()\<close> removes the last element, \<open>pop(0)\<close> the first. Displaying the frame,
  the status bar and speech belong to the GUI and write none of these fields.
\<close>

record session =
  current_image :: "frame option"
  original_image :: "frame option"
  undo_stack :: "bytes list"
  redo_stack :: "bytes list"
  has_unsaved_changes :: bool
  recent_files :: "string list"
  command_history :: "string list"
  brightness_base :: "frame option"
  contrast_base :: "frame option"
  brightness_slider :: int
  contrast_slider :: int
  saturation_slider :: int
  hue_slider :: int

definition max_stack_size :: nat where
  "max_stack_size = 20"

definition max_recent_files :: nat where
  "max_recent_files = 10"

definition max_history_size :: nat where
  "max_history_size = 15"

text \<open>The state that \<open>MainWindow.__init__\<close> and the slider setup establish.\<close>

definition init_session :: session where
  "init_session = \<lparr> current_image = None, original_image = None, undo_stack = [],
     redo_stack = [], has_unsaved_changes = False, recent_files = [],
     command_history = [], brightness_base = None, contrast_base = None,
     brightness_slider = 0, contrast_slider = 100, saturation_slider = 100,
     hue_slider = 0 \<rparr>"

text \<open>\<open>_load_image_from_path\<close>, given what \<open>cv2.imread\<close> (followed by the resize of an
  image larger than 2048) produced: \<open>None\<close> when the file is missing or unreadable.\<close>

definition load_image_from_path :: "string \<Rightarrow> frame option \<Rightarrow> session \<Rightarrow> session" where
  "load_image_from_path path loaded st =
     (case loaded of
        None \<Rightarrow> st
      | Some img \<Rightarrow>
          st\<lparr> current_image := Some img, original_image := Some img,
              undo_stack := [], redo_stack := [], has_unsaved_changes := False,
              recent_files := (if path \<notin> set (recent_files st)
                               then take max_recent_files (path # recent_files st)
                               else recent_files st) \<rparr>)"

section \<open>Undo and redo\<close>

text \<open>What the Python raises: \<open>cv2.error\<close> from encoding \<open>None\<close>, \<open>KeyError\<close> from a
  dictionary, \<open>TypeError\<close> and \<open>ValueError\<close> from \<open>int\<close>.\<close>

datatype error = CvError | KeyError | TypeError | ValueError

definition save_image_state :: "extern \<Rightarrow> session \<Rightarrow> session" where
  "save_image_state cv st =
     (case current_image st of
        None \<Rightarrow> st
      | Some img \<Rightarrow>
          (let compressed = compress_image cv img;
               stack = undo_stack st @ [compressed];
               stack' = (if length stack > max_stack_size then tl stack else stack)
           in st\<lparr> undo_stack := stack', redo_stack := [], has_unsaved_changes := True \<rparr>))"

text \<open>\<open>compress_image(None)\<close> makes OpenCV raise; nothing has been written at that point.\<close>

definition undo :: "extern \<Rightarrow> session \<Rightarrow> error + session" where
  "undo cv st =
     (if undo_stack st = [] then Inr st
      else case current_image st of
             None \<Rightarrow> Inl CvError
           | Some img \<Rightarrow>
               Inr (st\<lparr> redo_stack := redo_stack st @ [compress_image cv img],
                        current_image := decompress_image cv (last (undo_stack st)),
                        undo_stack := butlast (undo_stack st) \<rparr>))"

definition redo :: "extern \<Rightarrow> session \<Rightarrow> error + session" where
  "redo cv st =
     (if redo_stack st = [] then Inr st
      else case current_image st of
             None \<Rightarrow> Inl CvError
           | Some img \<Rightarrow>
               Inr (st\<lparr> undo_stack := undo_stack st @ [compress_image cv img],
                        current_image := decompress_image cv (last (redo_stack st)),
                        redo_stack := butlast (redo_stack st) \<rparr>))"

section \<open>Filters, transforms and reset\<close>

text \<open>Every function starts with \<open>if not self._check_image(): return\<close>, the \<open>None\<close>
  branch below, and then calls \<open>save_image_state\<close>, which leaves the frame as it is.\<close>

definition apply_grayscale :: "extern \<Rightarrow> session \<Rightarrow> session" where
  "apply_grayscale cv st =
     (case current_image st of
        None \<Rightarrow> st
      | Some img \<Rightarrow>
          (let st' = save_image_state cv st
           in if ndim img = 3 then st'\<lparr> current_image := Some (BGR2GRAY cv img) \<rparr> else st'))"

definition apply_blur :: "extern \<Rightarrow> session \<Rightarrow> session" where
  "apply_blur cv st =
     (case current_image st of
        None \<Rightarrow> st
      | Some img \<Rightarrow> (save_image_state cv st)\<lparr> current_image := Some (GaussianBlur15 cv img) \<rparr>)"

definition apply_sharpen :: "extern \<Rightarrow> session \<Rightarrow> session" where
  "apply_sharpen cv st =
     (case current_image st of
        None \<Rightarrow> st
      | Some img \<Rightarrow> (save_image_state cv st)\<lparr> current_image := Some (filter2D_sharpen cv img) \<rparr>)"

definition apply_edge_detection :: "extern \<Rightarrow> session \<Rightarrow> session" where
  "apply_edge_detection cv st =
     (case current_image st of
        None \<Rightarrow> st
      | Some img \<Rightarrow>
          (let gray = (if ndim img = 3 then BGR2GRAY cv img else img)
           in (save_image_state cv st)\<lparr> current_image := Some (Canny_100_200 cv gray) \<rparr>))"

text \<open>\<open>cv2.transform\<close> on 8-bit input returns 8-bit samples, on which the following
  \<open>np.clip(_, 0, 255).astype(np.uint8)\<close> changes nothing.\<close>

definition apply_sepia :: "extern \<Rightarrow> session \<Rightarrow> session" where
  "apply_sepia cv st =
     (case current_image st of
        None \<Rightarrow> st
      | Some img0 \<Rightarrow>
          (let img = (if ndim img0 = 2 then GRAY2BGR cv img0 else img0)
           in (save_image_state cv st)\<lparr> current_image := Some (transform_sepia cv img) \<rparr>))"

text \<open>\<open>cv2.bitwise_not\<close> complements every sample.\<close>

definition bitwise_not :: "frame \<Rightarrow> frame" where
  "bitwise_not img = map_samples (\<lambda>s. not s) img"

definition apply_invert :: "extern \<Rightarrow> session \<Rightarrow> session" where
  "apply_invert cv st =
     (case current_image st of
        None \<Rightarrow> st
      | Some img \<Rightarrow> (save_image_state cv st)\<lparr> current_image := Some (bitwise_not img) \<rparr>)"

text \<open>\<open>ycrcb[:, :, 0] = cv2.equalizeHist(ycrcb[:, :, 0])\<close>: the first channel of every
  pixel is replaced by the equalised plane. \<open>cvtColor\<close> returns three channels per
  pixel and \<open>equalizeHist\<close> keeps the shape, so the pixel and the plane are never short.\<close>

fun channel0 :: "frame \<Rightarrow> sample list list" where
  "channel0 (Gray rows) = rows"
| "channel0 (Color rows) = map (map hd) rows"

fun set_channel0 :: "frame \<Rightarrow> sample list list \<Rightarrow> frame" where
  "set_channel0 (Gray rows) plane = Gray plane"
| "set_channel0 (Color rows) plane =
     Color (map (\<lambda>(row, prow). map (\<lambda>(px, s). s # tl px) (zip row prow)) (zip rows plane))"

definition apply_histogram_equalization :: "extern \<Rightarrow> session \<Rightarrow> session" where
  "apply_histogram_equalization cv st =
     (case current_image st of
        None \<Rightarrow> st
      | Some img \<Rightarrow>
          (if ndim img = 3
           then (let ycrcb = BGR2YCrCb cv img;
                     ycrcb' = set_channel0 ycrcb (equalizeHist cv (channel0 ycrcb))
                 in (save_image_state cv st)\<lparr> current_image := Some (YCrCb2BGR cv ycrcb') \<rparr>)
           else (save_image_state cv st)\<lparr> current_image :=
                   Some (Gray (equalizeHist cv (channel0 img))) \<rparr>))"

definition apply_adaptive_thresholding :: "extern \<Rightarrow> session \<Rightarrow> session" where
  "apply_adaptive_thresholding cv st =
     (case current_image st of
        None \<Rightarrow> st
      | Some img \<Rightarrow>
          (let gray = (if ndim img = 3 then BGR2GRAY cv img else img)
           in (save_image_state cv st)\<lparr> current_image := Some (adaptiveThreshold cv gray) \<rparr>))"

definition rotate_left :: "extern \<Rightarrow> session \<Rightarrow> session" where
  "rotate_left cv st =
     (case current_image st of
        None \<Rightarrow> st
      | Some img \<Rightarrow> (save_image_state cv st)\<lparr> current_image := Some (rotate_ccw cv img) \<rparr>)"

definition rotate_right :: "extern \<Rightarrow> session \<Rightarrow> session" where
  "rotate_right cv st =
     (case current_image st of
        None \<Rightarrow> st
      | Some img \<Rightarrow> (save_image_state cv st)\<lparr> current_image := Some (rotate_cw cv img) \<rparr>)"

definition flip_horizontal :: "extern \<Rightarrow> session \<Rightarrow> session" where
  "flip_horizontal cv st =
     (case current_image st of
        None \<Rightarrow> st
      | Some img \<Rightarrow> (save_image_state cv st)\<lparr> current_image := Some (flip cv 1 img) \<rparr>)"

definition flip_vertical :: "extern \<Rightarrow> session \<Rightarrow> session" where
  "flip_vertical cv st =
     (case current_image st of
        None \<Rightarrow> st
      | Some img \<Rightarrow> (save_image_state cv st)\<lparr> current_image := Some (flip cv 0 img) \<rparr>)"

text \<open>\<open>reset_image\<close> guards on the original frame, not on the current one.\<close>

definition reset_image :: "extern \<Rightarrow> session \<Rightarrow> session" where
  "reset_image cv st =
     (case original_image st of
        None \<Rightarrow> st
      | Some orig \<Rightarrow> (save_image_state cv st)\<lparr> current_image := Some orig \<rparr>)"

section \<open>Adjustments\<close>

text \<open>
  \<open>cv2.convertScaleAbs(src, alpha=1, beta=v)\<close> computes, for every sample,
  \<open>saturate_cast<uchar>(|src * alpha + beta|)\<close>: scaling, then the absolute value, then
  saturation to 8 bits. With \<open>alpha = 1\<close> and an integer \<open>beta\<close> the arithmetic is exact.
\<close>

definition convertScaleAbs_beta :: "int \<Rightarrow> sample \<Rightarrow> sample" where
  "convertScaleAbs_beta beta s = word_of_int (min 255 \<bar>uint s + beta\<bar>)"

definition apply_brightness :: "int \<Rightarrow> session \<Rightarrow> session" where
  "apply_brightness val st =
     (case current_image st of
        None \<Rightarrow> st
      | Some img \<Rightarrow>
          (let base = (case brightness_base st of None \<Rightarrow> img | Some b \<Rightarrow> b);
               v = clamp val (- 100) 100
           in st\<lparr> brightness_base := Some base,
                  current_image := Some (map_samples (convertScaleAbs_beta v) base) \<rparr>))"

definition apply_contrast :: "extern \<Rightarrow> int \<Rightarrow> session \<Rightarrow> session" where
  "apply_contrast cv val st =
     (case current_image st of
        None \<Rightarrow> st
      | Some img \<Rightarrow>
          (let base = (case contrast_base st of None \<Rightarrow> img | Some b \<Rightarrow> b);
               v = clamp val 0 200
           in st\<lparr> contrast_base := Some base,
                  current_image := Some (map_samples (scale_abs cv v) base) \<rparr>))"

text \<open>The saturation channel is scaled in \<open>float32\<close> and clipped; the hue and value
  channels go through \<open>float32\<close> and back to \<open>uint8\<close> unchanged.\<close>

definition saturation_scaled :: "extern \<Rightarrow> int \<Rightarrow> hsv_frame \<Rightarrow> hsv_frame" where
  "saturation_scaled cv v hsv = map (map (\<lambda>(h, s, x). (h, sat_scale cv v s, x))) hsv"

definition saturate_frame :: "extern \<Rightarrow> int \<Rightarrow> frame \<Rightarrow> frame" where
  "saturate_frame cv v img0 =
     (let img = (if ndim img0 = 2 then GRAY2BGR cv img0 else img0);
          hsv = BGR2HSV cv img
      in HSV2BGR cv (saturation_scaled cv v hsv))"

definition apply_saturation :: "extern \<Rightarrow> int \<Rightarrow> session \<Rightarrow> session" where
  "apply_saturation cv val st =
     (case current_image st of
        None \<Rightarrow> st
      | Some img \<Rightarrow>
          (let v = clamp val 0 200
           in st\<lparr> current_image := Some (saturate_frame cv v img) \<rparr>))"

text \<open>
  \<open>hsv[:, :, 0] = (hsv[:, :, 0] + v) % 180\<close> on \<open>int16\<close>: a hue sample is at most 255 and
  \<open>v\<close> is between -180 and 180, so the sum does not leave the 16-bit range and is
  computed here on integers. NumPy's \<open>%\<close> takes the sign of the divisor, as \<open>mod\<close> does.
\<close>

definition shift_hue :: "int \<Rightarrow> sample \<Rightarrow> sample" where
  "shift_hue v h = word_of_int ((uint h + v) mod 180)"

definition hue_shifted :: "int \<Rightarrow> hsv_frame \<Rightarrow> hsv_frame" where
  "hue_shifted v hsv = map (map (\<lambda>(h, s, x). (shift_hue v h, s, x))) hsv"

definition hue_frame :: "extern \<Rightarrow> int \<Rightarrow> frame \<Rightarrow> frame" where
  "hue_frame cv v img0 =
     (let img = (if ndim img0 = 2 then GRAY2BGR cv img0 else img0);
          hsv = BGR2HSV cv img
      in HSV2BGR cv (hue_shifted v hsv))"

definition apply_hue :: "extern \<Rightarrow> int \<Rightarrow> session \<Rightarrow> session" where
  "apply_hue cv val st =
     (case current_image st of
        None \<Rightarrow> st
      | Some img \<Rightarrow>
          (let v = clamp val (- 180) 180
           in st\<lparr> current_image := Some (hue_frame cv v img) \<rparr>))"

subsection \<open>Sliders\<close>

text \<open>
  Qt's \<open>QSlider.setValue\<close> bounds the value to the slider's range and, only when the
  bounded value differs from the one held, stores it and emits \<open>valueChanged\<close>, to which
  the adjustment function is connected. \<open>slider_set_value\<close> returns the value emitted.
\<close>

definition slider_set_value :: "int \<Rightarrow> int \<Rightarrow> int \<Rightarrow> int \<Rightarrow> int option" where
  "slider_set_value lo hi held val =
     (let v = max lo (min val hi) in if v = held then None else Some v)"

definition set_brightness_slider :: "int \<Rightarrow> session \<Rightarrow> session" where
  "set_brightness_slider val st =
     (case slider_set_value (- 100) 100 (brightness_slider st) val of
        None \<Rightarrow> st
      | Some v \<Rightarrow> apply_brightness v (st\<lparr> brightness_slider := v \<rparr>))"

definition set_contrast_slider :: "extern \<Rightarrow> int \<Rightarrow> session \<Rightarrow> session" where
  "set_contrast_slider cv val st =
     (case slider_set_value 0 200 (contrast_slider st) val of
        None \<Rightarrow> st
      | Some v \<Rightarrow> apply_contrast cv v (st\<lparr> contrast_slider := v \<rparr>))"

definition set_saturation_slider :: "extern \<Rightarrow> int \<Rightarrow> session \<Rightarrow> session" where
  "set_saturation_slider cv val st =
     (case slider_set_value 0 200 (saturation_slider st) val of
        None \<Rightarrow> st
      | Some v \<Rightarrow> apply_saturation cv v (st\<lparr> saturation_slider := v \<rparr>))"

definition set_hue_slider :: "extern \<Rightarrow> int \<Rightarrow> session \<Rightarrow> session" where
  "set_hue_slider cv val st =
     (case slider_set_value (- 180) 180 (hue_slider st) val of
        None \<Rightarrow> st
      | Some v \<Rightarrow> apply_hue cv v (st\<lparr> hue_slider := v \<rparr>))"

definition apply_saturation_default :: "extern \<Rightarrow> session \<Rightarrow> session" where
  "apply_saturation_default cv st = set_saturation_slider cv 150 st"

definition reset_adjustments :: "extern \<Rightarrow> session \<Rightarrow> session" where
  "reset_adjustments cv st =
     (let st1 = set_brightness_slider 0 st;
          st2 = set_contrast_slider cv 100 st1;
          st3 = set_saturation_slider cv 100 st2;
          st4 = set_hue_slider cv 0 st3
      in st4\<lparr> brightness_base := None, contrast_base := None \<rparr>)"

section \<open>Editing operations as data\<close>

text \<open>
  The operations that compute a new frame from the current one or put the original
  back: the eight filters from \<open>apply_grayscale\<close> to \<open>apply_adaptive_thresholding\<close>, the four
  transforms and \<open>reset_image\<close>, named so that a sequence of edits can be quantified
  over. The ninth function of the source's filter section, \<open>apply_saturation_default\<close>
  (the keyword \<open>saturation\<close>), computes no frame itself: it moves the saturation slider
  to 150, and is defined with the sliders above.
\<close>

datatype edit = Grayscale | Blur | Sharpen | EdgeDetection | Sepia | Invert
  | HistogramEqualization | AdaptiveThresholding | RotateLeft | RotateRight
  | FlipHorizontal | FlipVertical | ResetImage

fun apply_edit :: "extern \<Rightarrow> edit \<Rightarrow> session \<Rightarrow> session" where
  "apply_edit cv Grayscale st = apply_grayscale cv st"
| "apply_edit cv Blur st = apply_blur cv st"
| "apply_edit cv Sharpen st = apply_sharpen cv st"
| "apply_edit cv EdgeDetection st = apply_edge_detection cv st"
| "apply_edit cv Sepia st = apply_sepia cv st"
| "apply_edit cv Invert st = apply_invert cv st"
| "apply_edit cv HistogramEqualization st = apply_histogram_equalization cv st"
| "apply_edit cv AdaptiveThresholding st = apply_adaptive_thresholding cv st"
| "apply_edit cv RotateLeft st = rotate_left cv st"
| "apply_edit cv RotateRight st = rotate_right cv st"
| "apply_edit cv FlipHorizontal st = flip_horizontal cv st"
| "apply_edit cv FlipVertical st = flip_vertical cv st"
| "apply_edit cv ResetImage st = reset_image cv st"

fun run_edits :: "extern \<Rightarrow> edit list \<Rightarrow> session \<Rightarrow> session" where
  "run_edits cv [] st = st"
| "run_edits cv (e # es) st = run_edits cv es (apply_edit cv e st)"

fun undo_n :: "extern \<Rightarrow> nat \<Rightarrow> session \<Rightarrow> error + session" where
  "undo_n cv 0 st = Inr st"
| "undo_n cv (Suc n) st = (case undo cv st of Inl e \<Rightarrow> Inl e | Inr st' \<Rightarrow> undo_n cv n st')"

fun redo_n :: "extern \<Rightarrow> nat \<Rightarrow> session \<Rightarrow> error + session" where
  "redo_n cv 0 st = Inr st"
| "redo_n cv (Suc n) st = (case redo cv st of Inl e \<Rightarrow> Inl e | Inr st' \<Rightarrow> redo_n cv n st')"

text \<open>What one compression and decompression makes of a frame.\<close>

definition roundtrip :: "extern \<Rightarrow> frame \<Rightarrow> frame option" where
  "roundtrip cv img = decompress_image cv (compress_image cv img)"

text \<open>The frames of a sequence of edits: the current frame before the first edit and
  after each edit. The traces list the current frame after each undo (redo) of \<open>n\<close>
  in a row, up to the first that raises.\<close>

fun frames :: "extern \<Rightarrow> edit list \<Rightarrow> session \<Rightarrow> frame option list" where
  "frames cv [] st = [current_image st]"
| "frames cv (e # es) st = current_image st # frames cv es (apply_edit cv e st)"

fun undo_trace :: "extern \<Rightarrow> nat \<Rightarrow> session \<Rightarrow> frame option list" where
  "undo_trace cv 0 st = []"
| "undo_trace cv (Suc n) st =
     (case undo cv st of Inl e \<Rightarrow> [] | Inr st' \<Rightarrow> current_image st' # undo_trace cv n st')"

fun redo_trace :: "extern \<Rightarrow> nat \<Rightarrow> session \<Rightarrow> frame option list" where
  "redo_trace cv 0 st = []"
| "redo_trace cv (Suc n) st =
     (case redo cv st of Inl e \<Rightarrow> [] | Inr st' \<Rightarrow> current_image st' # redo_trace cv n st')"

text \<open>The two stacks together hold at most \<open>max_stack_size\<close> snapshots.\<close>

definition history_bounded :: "session \<Rightarrow> bool" where
  "history_bounded st \<longleftrightarrow> length (undo_stack st) + length (redo_stack st) \<le> max_stack_size"

section \<open>The command interpreter\<close>

subsection \<open>Strings\<close>

text \<open>
  An utterance is a Python \<open>str\<close> of code points below 256, one \<open>char\<close> for each.
  On these, \<open>str.strip\<close> and the pattern \<open>\s\<close> take the twelve characters below as white
  space, \<open>\d\<close> takes the ten ASCII digits, and \<open>str.lower\<close> adds 32 to the capital
  letters of ASCII and of Latin-1.
\<close>

definition py_isspace :: "char \<Rightarrow> bool" where
  "py_isspace c = (of_char c \<in> {9, 10, 11, 12, 13, 28, 29, 30, 31, 32, 133, 160 :: nat})"

definition py_isdecimal :: "char \<Rightarrow> bool" where
  "py_isdecimal c = (48 \<le> (of_char c :: nat) \<and> (of_char c :: nat) \<le> 57)"

definition lower_char :: "char \<Rightarrow> char" where
  "lower_char c =
     (let n = (of_char c :: nat)
      in if (65 \<le> n \<and> n \<le> 90) \<or> (192 \<le> n \<and> n \<le> 222 \<and> n \<noteq> 215)
         then char_of (n + 32) else c)"

definition lower :: "string \<Rightarrow> string" where
  "lower s = map lower_char s"

definition strip :: "string \<Rightarrow> string" where
  "strip s = rev (dropWhile py_isspace (rev (dropWhile py_isspace s)))"

text \<open>\<open>int\<close> on what group 1 of the patterns can hold: an optional minus sign and decimal
  digits. \<open>int(None)\<close> raises \<open>TypeError\<close>, \<open>int\<close> of another string \<open>ValueError\<close>.\<close>

definition digits_value :: "string \<Rightarrow> nat" where
  "digits_value ds = foldl (\<lambda>acc c. 10 * acc + (of_char c - 48)) 0 ds"

definition py_int :: "string option \<Rightarrow> error + int" where
  "py_int g =
     (case g of
        None \<Rightarrow> Inl TypeError
      | Some s \<Rightarrow>
          (let neg = (take 1 s = ''-'');
               ds = (if neg then drop 1 s else s)
           in if ds = [] \<or> \<not> list_all py_isdecimal ds then Inl ValueError
              else Inr ((if neg then - 1 else 1) * int (digits_value ds))))"

subsection \<open>Regular expressions\<close>

text \<open>
  The fragment of Python's \<open>re\<close> that the four patterns use, with its backtracking order:
  an alternation tries its branches from left to right, \<open>?\<close>, \<open>*\<close> and \<open>+\<close> are greedy and
  give characters back one at a time, and \<open>search\<close> returns the match that starts
  leftmost. \<open>rmatch\<close> passes the rest of the input and the text of group 1 to its
  continuation; the result of \<open>search\<close> is, for a match, what \<open>m.group(1)\<close> returns.
\<close>

datatype cclass = Space | Digit

fun in_class :: "cclass \<Rightarrow> char \<Rightarrow> bool" where
  "in_class Space c = py_isspace c"
| "in_class Digit c = py_isdecimal c"

datatype regex = Lit string | Alt regex regex | Seq regex regex | Opt regex
  | Star cclass | Plus cclass | Group regex

fun strip_prefix :: "string \<Rightarrow> string \<Rightarrow> string option" where
  "strip_prefix [] inp = Some inp"
| "strip_prefix (p # ps) [] = None"
| "strip_prefix (p # ps) (c # cs) = (if p = c then strip_prefix ps cs else None)"

fun try_down :: "nat \<Rightarrow> nat \<Rightarrow> (nat \<Rightarrow> 'r option) \<Rightarrow> 'r option" where
  "try_down lo 0 f = (if lo = 0 then f 0 else None)"
| "try_down lo (Suc n) f =
     (if Suc n < lo then None
      else case f (Suc n) of Some r \<Rightarrow> Some r | None \<Rightarrow> try_down lo n f)"

fun rmatch :: "regex \<Rightarrow> string \<Rightarrow> string option \<Rightarrow>
    (string \<Rightarrow> string option \<Rightarrow> 'r option) \<Rightarrow> 'r option" where
  "rmatch (Lit s) inp cap k =
     (case strip_prefix s inp of None \<Rightarrow> None | Some rest \<Rightarrow> k rest cap)"
| "rmatch (Alt a b) inp cap k =
     (case rmatch a inp cap k of Some r \<Rightarrow> Some r | None \<Rightarrow> rmatch b inp cap k)"
| "rmatch (Seq a b) inp cap k = rmatch a inp cap (\<lambda>rest cap'. rmatch b rest cap' k)"
| "rmatch (Opt a) inp cap k =
     (case rmatch a inp cap k of Some r \<Rightarrow> Some r | None \<Rightarrow> k inp cap)"
| "rmatch (Star c) inp cap k =
     try_down 0 (length (takeWhile (in_class c) inp)) (\<lambda>n. k (drop n inp) cap)"
| "rmatch (Plus c) inp cap k =
     try_down 1 (length (takeWhile (in_class c) inp)) (\<lambda>n. k (drop n inp) cap)"
| "rmatch (Group a) inp cap k =
     rmatch a inp cap (\<lambda>rest cap'. k rest (Some (take (length inp - length rest) inp)))"

fun search :: "regex \<Rightarrow> string \<Rightarrow> string option option" where
  "search re [] = rmatch re [] None (\<lambda>rest cap. Some cap)"
| "search re (c # cs) =
     (case rmatch re (c # cs) None (\<lambda>rest cap. Some cap) of
        Some m \<Rightarrow> Some m
      | None \<Rightarrow> search re cs)"

text \<open>\<open>_compile_patterns\<close>: \<open>keyword\s*(?:by)?\s*(-?\d+)\<close> for each keyword alternative.\<close>

definition by_number :: regex where
  "by_number = Seq (Star Space) (Seq (Opt (Lit ''by'')) (Seq (Star Space)
     (Group (Seq (Opt (Lit ''-'')) (Plus Digit)))))"

definition re_brightness :: regex where
  "re_brightness = Seq (Alt (Lit ''brightness'') (Lit ''brighten'')) by_number"

definition re_contrast :: regex where
  "re_contrast = Seq (Lit ''contrast'') by_number"

definition re_saturation :: regex where
  "re_saturation = Seq (Alt (Lit ''saturation'') (Lit ''saturate'')) by_number"

definition re_hue :: regex where
  "re_hue = Seq (Lit ''hue'') by_number"

subsection \<open>The similarity score\<close>

text \<open>
  \<open>fuzz.ratio\<close> of fuzzywuzzy on its pure-Python path: 0 when either string is empty,
  otherwise \<open>int(round(100 * SequenceMatcher(None, s1, s2).ratio()))\<close> with difflib's
  matcher. \<open>find_longest_match\<close> returns the longest common block, of those the one that
  starts earliest in the first string, of those the one that starts earliest in the
  second; the blocks to its left and to its right are matched in the same way, and the
  ratio is twice the number of matched characters over the sum of the lengths. (The
  matcher's junk heuristic applies to second strings of 200 characters or more only;
  the keywords are shorter.) \<open>round\<close> rounds a tie to the even neighbour; the quotient
  is exact here and a binary fraction in Python.
\<close>

fun common_prefix_len :: "string \<Rightarrow> string \<Rightarrow> nat" where
  "common_prefix_len (x # xs) (y # ys) = (if x = y then Suc (common_prefix_len xs ys) else 0)"
| "common_prefix_len xs ys = 0"

fun scan_b :: "string \<Rightarrow> string \<Rightarrow> nat \<Rightarrow> nat \<Rightarrow> nat \<times> nat \<times> nat \<Rightarrow> nat \<times> nat \<times> nat" where
  "scan_b as [] i j best = best"
| "scan_b as (y # ys) i j (besti, bestj, bestsize) =
     (let k = common_prefix_len as (y # ys)
      in scan_b as ys i (Suc j)
           (if k > bestsize then (i, j, k) else (besti, bestj, bestsize)))"

fun scan_a :: "string \<Rightarrow> string \<Rightarrow> nat \<Rightarrow> nat \<times> nat \<times> nat \<Rightarrow> nat \<times> nat \<times> nat" where
  "scan_a [] b i best = best"
| "scan_a (x # xs) b i best = scan_a xs b (Suc i) (scan_b (x # xs) b i 0 best)"

definition find_longest_match :: "string \<Rightarrow> string \<Rightarrow> nat \<times> nat \<times> nat" where
  "find_longest_match a b = scan_a a b 0 (0, 0, 0)"

lemma common_prefix_len_le:
  "common_prefix_len xs ys \<le> length xs \<and> common_prefix_len xs ys \<le> length ys"
  by (induction xs ys rule: common_prefix_len.induct) auto

lemma scan_b_bound:
  "scan_b as bs i j best = (bi, bj, bk) \<Longrightarrow>
   (case best of (i0, j0, k0) \<Rightarrow> i0 + k0 \<le> la \<and> j0 + k0 \<le> lb) \<Longrightarrow>
   i + length as \<le> la \<Longrightarrow> j + length bs \<le> lb \<Longrightarrow> bi + bk \<le> la \<and> bj + bk \<le> lb"
proof (induction as bs i j best rule: scan_b.induct)
  case (1 as i j best)
  then show ?case by simp
next
  case (2 as y ys i j besti bestj bestsize)
  have k: "common_prefix_len as (y # ys) \<le> length as"
    "common_prefix_len as (y # ys) \<le> Suc (length ys)"
    using common_prefix_len_le [of as "y # ys"] by simp_all
  show ?case
    using "2.IH" [OF refl] "2.prems" k
    by (auto simp: Let_def split: if_splits)
qed

lemma scan_a_bound:
  "scan_a as b i best = (bi, bj, bk) \<Longrightarrow>
   (case best of (i0, j0, k0) \<Rightarrow> i0 + k0 \<le> la \<and> j0 + k0 \<le> length b) \<Longrightarrow>
   i + length as \<le> la \<Longrightarrow> bi + bk \<le> la \<and> bj + bk \<le> length b"
proof (induction as b i best rule: scan_a.induct)
  case (1 b i best)
  then show ?case by simp
next
  case (2 x xs b i best)
  obtain i1 j1 k1 where s: "scan_b (x # xs) b i 0 best = (i1, j1, k1)"
    by (cases "scan_b (x # xs) b i 0 best") auto
  have "i1 + k1 \<le> la \<and> j1 + k1 \<le> length b"
    using scan_b_bound [OF s, of la "length b"] "2.prems" by simp
  then show ?case
    using "2.IH" "2.prems" s by simp
qed

lemma find_longest_match_bound:
  "find_longest_match a b = (i, j, k) \<Longrightarrow> i + k \<le> length a \<and> j + k \<le> length b"
  unfolding find_longest_match_def
  using scan_a_bound [of a b 0 "(0, 0, 0)" i j k "length a"] by simp

function matches :: "string \<Rightarrow> string \<Rightarrow> nat" where
  "matches a b =
     (case find_longest_match a b of
        (i, j, k) \<Rightarrow>
          if k = 0 then 0
          else k + matches (take i a) (take j b) + matches (drop (i + k) a) (drop (j + k) b))"
  by pat_completeness auto
termination
proof (relation "measure (\<lambda>(a, b). length a + length b)", goal_cases)
  case 1
  show ?case by simp
next
  case (2 a b i y j k)
  then have "find_longest_match a b = (i, j, k)" by simp
  from find_longest_match_bound [OF this] 2 show ?case by simp
next
  case (3 a b i y j k)
  then have "find_longest_match a b = (i, j, k)" by simp
  from find_longest_match_bound [OF this] 3 show ?case by (simp; linarith)
qed

definition round_half_even :: "nat \<Rightarrow> nat \<Rightarrow> nat" where
  "round_half_even n d =
     (let q = n div d; r = n mod d
      in if 2 * r < d then q else if d < 2 * r then q + 1 else if even q then q else q + 1)"

definition fuzz_ratio :: "string \<Rightarrow> string \<Rightarrow> nat" where
  "fuzz_ratio s1 s2 =
     (if s1 = [] \<or> s2 = [] then 0
      else round_half_even (200 * matches s1 s2) (length s1 + length s2))"

subsection \<open>Handling a command\<close>

datatype command = Edit edit | SaturationDefault | ZoomIn | ZoomOut | ResetZoom | Fit
  | Undo | Redo | Help | Exit

text \<open>The dictionary \<open>commands\<close> of \<open>handle_command\<close>, in its insertion order, which is
  the order in which \<open>commands.keys()\<close> enumerates it.\<close>

definition commands :: "(string \<times> command) list" where
  "commands =
     [(''grayscale'', Edit Grayscale),
      (''blur'', Edit Blur),
      (''sharpen'', Edit Sharpen),
      (''edge'', Edit EdgeDetection),
      (''sepia'', Edit Sepia),
      (''invert'', Edit Invert),
      (''histogram'', Edit HistogramEqualization),
      (''adaptive'', Edit AdaptiveThresholding),
      (''saturation'', SaturationDefault),
      (''rotate left'', Edit RotateLeft),
      (''rotate right'', Edit RotateRight),
      (''flip horizontal'', Edit FlipHorizontal),
      (''flip vertical'', Edit FlipVertical),
      (''zoom in'', ZoomIn),
      (''zoom out'', ZoomOut),
      (''reset zoom'', ResetZoom),
      (''fit'', Fit),
      (''undo'', Undo),
      (''redo'', Redo),
      (''reset'', Edit ResetImage),
      (''help'', Help),
      (''exit'', Exit)]"

text \<open>Calling the function a keyword is mapped to. Zooming, the help dialog and closing
  the window write none of the fields of the session record.\<close>

fun run_command :: "extern \<Rightarrow> command \<Rightarrow> session \<Rightarrow> error + session" where
  "run_command cv (Edit e) st = Inr (apply_edit cv e st)"
| "run_command cv SaturationDefault st = Inr (apply_saturation_default cv st)"
| "run_command cv Undo st = undo cv st"
| "run_command cv Redo st = redo cv st"
| "run_command cv ZoomIn st = Inr st"
| "run_command cv ZoomOut st = Inr st"
| "run_command cv ResetZoom st = Inr st"
| "run_command cv Fit st = Inr st"
| "run_command cv Help st = Inr st"
| "run_command cv Exit st = Inr st"

text \<open>The loop over \<open>commands.keys()\<close>, from \<open>best_match = None\<close> and \<open>best_score = 0\<close>.\<close>

fun best_match_loop :: "(string \<Rightarrow> string \<Rightarrow> nat) \<Rightarrow> string \<Rightarrow> string list \<Rightarrow>
    string option \<times> nat \<Rightarrow> string option \<times> nat" where
  "best_match_loop r cmd [] acc = acc"
| "best_match_loop r cmd (key # keys) (best_match, best_score) =
     (let score = r cmd key
      in if score > 75 \<and> score > best_score
         then best_match_loop r cmd keys (Some key, score)
         else best_match_loop r cmd keys (best_match, best_score))"

definition fuzzy_match :: "(string \<Rightarrow> string \<Rightarrow> nat) \<Rightarrow> string \<Rightarrow> string option" where
  "fuzzy_match r cmd = fst (best_match_loop r cmd (map fst commands) (None, 0))"

definition log_command :: "string \<Rightarrow> session \<Rightarrow> session" where
  "log_command command st =
     (let history = command_history st @ [command]
      in st\<lparr> command_history :=
               (if length history > max_history_size then tl history else history) \<rparr>)"

text \<open>The four \<open>if m := pattern.search(cmd)\<close> tests, in the order of the source.\<close>

definition parameterized :: "extern \<Rightarrow> string \<Rightarrow> session \<Rightarrow> error + session" where
  "parameterized cv cmd st =
     (case search re_brightness cmd of
        Some g \<Rightarrow> (case py_int g of Inl e \<Rightarrow> Inl e | Inr n \<Rightarrow> Inr (set_brightness_slider n st))
      | None \<Rightarrow>
     (case search re_contrast cmd of
        Some g \<Rightarrow> (case py_int g of Inl e \<Rightarrow> Inl e | Inr n \<Rightarrow> Inr (set_contrast_slider cv n st))
      | None \<Rightarrow>
     (case search re_saturation cmd of
        Some g \<Rightarrow> (case py_int g of Inl e \<Rightarrow> Inl e | Inr n \<Rightarrow> Inr (set_saturation_slider cv n st))
      | None \<Rightarrow>
     (case search re_hue cmd of
        Some g \<Rightarrow> (case py_int g of Inl e \<Rightarrow> Inl e | Inr n \<Rightarrow> Inr (set_hue_slider cv n st))
      | None \<Rightarrow> Inr st))))"

text \<open>\<open>if best_match:\<close> is false for \<open>None\<close> and for the empty string.\<close>

definition handle_command :: "extern \<Rightarrow> string \<Rightarrow> session \<Rightarrow> error + session" where
  "handle_command cv command st =
     (let cmd = lower (strip command);
          st' = log_command command st
      in case fuzzy_match (ratio cv) cmd of
           Some key \<Rightarrow>
             (if key \<noteq> []
              then (case map_of commands key of
                      None \<Rightarrow> Inl KeyError
                    | Some c \<Rightarrow> run_command cv c st')
              else parameterized cv cmd st')
         | None \<Rightarrow> parameterized cv cmd st')"

section \<open>Sessions the user can reach\<close>

text \<open>What the user can make the window do to the session: load a file, press a filter,
  transform or reset button, undo, redo, move a slider, reset the adjustments, speak a
  command. An operation that raises leaves the session as it was.\<close>

datatype event = LoadImage string "frame option" | Press edit | PressUndo | PressRedo
  | MoveBrightness int | MoveContrast int | MoveSaturation int | MoveHue int
  | ResetAdjustments | Speak string

fun step :: "extern \<Rightarrow> event \<Rightarrow> session \<Rightarrow> error + session" where
  "step cv (LoadImage path loaded) st = Inr (load_image_from_path path loaded st)"
| "step cv (Press e) st = Inr (apply_edit cv e st)"
| "step cv PressUndo st = undo cv st"
| "step cv PressRedo st = redo cv st"
| "step cv (MoveBrightness v) st = Inr (set_brightness_slider v st)"
| "step cv (MoveContrast v) st = Inr (set_contrast_slider cv v st)"
| "step cv (MoveSaturation v) st = Inr (set_saturation_slider cv v st)"
| "step cv (MoveHue v) st = Inr (set_hue_slider cv v st)"
| "step cv ResetAdjustments st = Inr (reset_adjustments cv st)"
| "step cv (Speak command) st = handle_command cv command st"

inductive reachable :: "extern \<Rightarrow> session \<Rightarrow> bool" for cv :: extern where
  initial: "reachable cv init_session"
| after: "reachable cv st \<Longrightarrow> step cv ev st = Inr st' \<Longrightarrow> reachable cv st'"

section \<open>An instance of the library\<close>

text \<open>
  A choice of the library functions on which the operations can be evaluated at
  concrete inputs: the codec writes one header byte and the samples and forgets the shape of the frame, the
  colour conversions relabel the channels, the floating-point scalings are computed on
  integers, the filters leave the frame as it is, and the score is \<open>fuzz_ratio\<close>.
\<close>

fun triple_of :: "sample list \<Rightarrow> sample \<times> sample \<times> sample" where
  "triple_of [a, b, c] = (a, b, c)"
| "triple_of px = (0, 0, 0)"

fun gray_to_color :: "frame \<Rightarrow> frame" where
  "gray_to_color (Gray rows) = Color (map (map (\<lambda>s. [s, s, s])) rows)"
| "gray_to_color (Color rows) = Color rows"

fun color_to_triples :: "frame \<Rightarrow> hsv_frame" where
  "color_to_triples (Gray rows) = map (map (\<lambda>s. (s, s, s))) rows"
| "color_to_triples (Color rows) = map (map triple_of) rows"

definition test_cv :: extern where
  "test_cv = \<lparr> imencode_jpg = (\<lambda>img. 255 # samples img),
     imdecode = (\<lambda>buf. case buf of [] \<Rightarrow> None | b # bs \<Rightarrow> Some (Gray [bs])),
     BGR2GRAY = (\<lambda>img. Gray (channel0 img)),
     GRAY2BGR = gray_to_color,
     BGR2HSV = color_to_triples,
     HSV2BGR = (\<lambda>hsv. Color (map (map (\<lambda>(h, s, x). [h, s, x])) hsv)),
     BGR2YCrCb = (\<lambda>img. img),
     YCrCb2BGR = (\<lambda>img. img),
     GaussianBlur15 = (\<lambda>img. img),
     filter2D_sharpen = (\<lambda>img. img),
     Canny_100_200 = (\<lambda>img. img),
     transform_sepia = (\<lambda>img. img),
     equalizeHist = (\<lambda>plane. plane),
     adaptiveThreshold = (\<lambda>img. img),
     rotate_ccw = (\<lambda>img. img),
     rotate_cw = (\<lambda>img. img),
     flip = (\<lambda>code img. img),
     scale_abs = (\<lambda>v s. word_of_int (min 255 (uint s * v div 100))),
     sat_scale = (\<lambda>v s. word_of_int (min 255 (uint s * v div 100))),
     ratio = fuzz_ratio \<rparr>"

text \<open>Sessions in which a one-pixel image has just been loaded: a grayscale pixel of
  value 10, and a colour pixel whose channels the instance reads as hue 170, saturation
  100 and value 50.\<close>

definition gray_session :: session where
  "gray_session = load_image_from_path ''a.png'' (Some (Gray [[10]])) init_session"

definition color_session :: session where
  "color_session = load_image_from_path ''b.png'' (Some (Color [[[170, 100, 50]]])) init_session"

text \<open>The grayscale session after the brightness was moved to 30 and the contrast to
  120: both baselines are cached.\<close>

definition adjusted_session :: session where
  "adjusted_session = apply_contrast test_cv 120 (apply_brightness 30 gray_session)"

text \<open>The grayscale session after twenty inversions: the undo stack is full.\<close>

definition full_session :: session where
  "full_session = run_edits test_cv (replicate 20 Invert) gray_session"

section \<open>The library instance, evaluated\<close>

lemma test_cv_simps:
  "imencode_jpg test_cv = (\<lambda>img. 255 # samples img)"
  "imdecode test_cv = (\<lambda>buf. case buf of [] \<Rightarrow> None | b # bs \<Rightarrow> Some (Gray [bs]))"
  "BGR2GRAY test_cv = (\<lambda>img. Gray (channel0 img))"
  "GRAY2BGR test_cv = gray_to_color"
  "BGR2HSV test_cv = color_to_triples"
  "HSV2BGR test_cv = (\<lambda>hsv. Color (map (map (\<lambda>(h, s, x). [h, s, x])) hsv))"
  "scale_abs test_cv = (\<lambda>v s. word_of_int (min 255 (uint s * v div 100)))"
  "sat_scale test_cv = (\<lambda>v s. word_of_int (min 255 (uint s * v div 100)))"
  "ratio test_cv = fuzz_ratio"
  by (simp_all add: test_cv_def)

lemma roundtrip_test_cv: "roundtrip test_cv f = Some (Gray [samples f])"
  by (simp add: roundtrip_def compress_image_def decompress_image_def test_cv_simps)

section \<open>History discipline of the operations\<close>

lemma save_image_state_Some:
  "current_image st = Some img \<Longrightarrow>
   save_image_state cv st =
     st\<lparr> undo_stack := (if max_stack_size \<le> length (undo_stack st)
                          then tl (undo_stack st) @ [compress_image cv img]
                          else undo_stack st @ [compress_image cv img]),
         redo_stack := [], has_unsaved_changes := True \<rparr>"
  by (cases "undo_stack st") (simp_all add: save_image_state_def Let_def max_stack_size_def)

lemma save_image_state_None:
  "current_image st = None \<Longrightarrow> save_image_state cv st = st"
  by (simp add: save_image_state_def)

lemma current_image_save [simp]:
  "current_image (save_image_state cv st) = current_image st"
  by (simp add: save_image_state_def Let_def split: option.splits)

lemma apply_edit_shape:
  assumes "current_image st = Some img" "original_image st = Some orig"
  shows "\<exists>new. apply_edit cv e st = (save_image_state cv st)\<lparr> current_image := Some new \<rparr>"
proof (cases e)
  case Grayscale
  show ?thesis
  proof (cases "ndim img = 3")
    case True
    with assms Grayscale show ?thesis
      by (simp add: apply_grayscale_def Let_def) blast
  next
    case False
    have same: "save_image_state cv st = (save_image_state cv st)\<lparr> current_image := Some img \<rparr>"
      using assms by (simp add: save_image_state_Some)
    have "apply_edit cv e st = save_image_state cv st"
      using False assms Grayscale by (simp add: apply_grayscale_def Let_def)
    with same show ?thesis by (intro exI [of _ img]) simp
  qed
next
  case Blur
  with assms show ?thesis by (simp add: apply_blur_def) blast
next
  case Sharpen
  with assms show ?thesis by (simp add: apply_sharpen_def) blast
next
  case EdgeDetection
  with assms show ?thesis by (simp add: apply_edge_detection_def Let_def) blast
next
  case Sepia
  with assms show ?thesis by (simp add: apply_sepia_def Let_def) blast
next
  case Invert
  with assms show ?thesis by (simp add: apply_invert_def) blast
next
  case HistogramEqualization
  with assms show ?thesis
    by (cases "ndim img = 3") (simp_all add: apply_histogram_equalization_def Let_def, blast+)
next
  case AdaptiveThresholding
  with assms show ?thesis by (simp add: apply_adaptive_thresholding_def Let_def) blast
next
  case RotateLeft
  with assms show ?thesis by (simp add: rotate_left_def) blast
next
  case RotateRight
  with assms show ?thesis by (simp add: rotate_right_def) blast
next
  case FlipHorizontal
  with assms show ?thesis by (simp add: flip_horizontal_def) blast
next
  case FlipVertical
  with assms show ?thesis by (simp add: flip_vertical_def) blast
next
  case ResetImage
  with assms show ?thesis by (simp add: reset_image_def) blast
qed

text \<open>
  Claim C1, as the code has it. Each of the eight filters that compute a new frame, each
  of the four transforms and the reset to the original, on a session with an image
  loaded, is a change of the current frame made on top of \<open>save_image_state\<close>: the
  compressed frame from before the change is on top of the undo stack (the oldest entry
  dropped when there were already 20), the redo stack is empty and the session is
  marked as changed. The other operations that change the frame write neither stack
  nor the flag: the four parameterized adjustments (brightness, contrast, saturation,
  hue), called directly or by moving their slider, and \<open>apply_saturation_default\<close>,
  the saturation shortcut of the filter section, which is the saturation adjustment
  at 150 unless the slider is already there.
\<close>

theorem edits_record_before_mutation:
  assumes "current_image st = Some img" "original_image st = Some orig"
  shows "(\<exists>new. apply_edit cv e st = (save_image_state cv st)\<lparr> current_image := Some new \<rparr>)
       \<and> undo_stack (apply_edit cv e st) =
           (if 20 \<le> length (undo_stack st) then tl (undo_stack st) @ [compress_image cv img]
            else undo_stack st @ [compress_image cv img])
       \<and> redo_stack (apply_edit cv e st) = []
       \<and> has_unsaved_changes (apply_edit cv e st)
       \<and> (\<forall>st' \<in> {apply_brightness v st, apply_contrast cv v st,
                    apply_saturation cv v st, apply_hue cv v st}.
            undo_stack st' = undo_stack st \<and> redo_stack st' = redo_stack st
            \<and> has_unsaved_changes st' = has_unsaved_changes st)
       \<and> (\<forall>st' \<in> {apply_saturation_default cv st, set_brightness_slider v st,
                    set_contrast_slider cv v st, set_saturation_slider cv v st,
                    set_hue_slider cv v st}.
            undo_stack st' = undo_stack st \<and> redo_stack st' = redo_stack st
            \<and> has_unsaved_changes st' = has_unsaved_changes st)
       \<and> apply_saturation_default cv st =
           (if saturation_slider st = 150 then st
            else apply_saturation cv 150 (st\<lparr> saturation_slider := 150 \<rparr>))
       \<and> (saturation_slider st \<noteq> 150 \<longrightarrow>
            current_image (apply_saturation_default cv st) = Some (saturate_frame cv 150 img))"
proof -
  obtain new where n: "apply_edit cv e st = (save_image_state cv st)\<lparr> current_image := Some new \<rparr>"
    using apply_edit_shape [OF assms] by blast
  have adj: "\<forall>st' \<in> {apply_brightness v st, apply_contrast cv v st,
                    apply_saturation cv v st, apply_hue cv v st}.
            undo_stack st' = undo_stack st \<and> redo_stack st' = redo_stack st
            \<and> has_unsaved_changes st' = has_unsaved_changes st"
    using assms
    by (simp add: apply_brightness_def apply_contrast_def apply_saturation_def apply_hue_def Let_def)
  have sliders: "\<forall>st' \<in> {apply_saturation_default cv st, set_brightness_slider v st,
                    set_contrast_slider cv v st, set_saturation_slider cv v st,
                    set_hue_slider cv v st}.
            undo_stack st' = undo_stack st \<and> redo_stack st' = redo_stack st
            \<and> has_unsaved_changes st' = has_unsaved_changes st"
    using assms
    by (simp add: apply_saturation_default_def set_brightness_slider_def
        set_contrast_slider_def set_saturation_slider_def set_hue_slider_def
        apply_brightness_def apply_contrast_def apply_saturation_def apply_hue_def Let_def
        split: option.splits)
  have dflt: "apply_saturation_default cv st =
           (if saturation_slider st = 150 then st
            else apply_saturation cv 150 (st\<lparr> saturation_slider := 150 \<rparr>))"
    by (simp add: apply_saturation_default_def set_saturation_slider_def slider_set_value_def)
  have frame: "saturation_slider st \<noteq> 150 \<longrightarrow>
            current_image (apply_saturation_default cv st) = Some (saturate_frame cv 150 img)"
    using assms by (simp add: dflt apply_saturation_def clamp_def)
  have stacks: "undo_stack (apply_edit cv e st) =
           (if 20 \<le> length (undo_stack st) then tl (undo_stack st) @ [compress_image cv img]
            else undo_stack st @ [compress_image cv img])"
    "redo_stack (apply_edit cv e st) = []" "has_unsaved_changes (apply_edit cv e st)"
    using assms by (simp_all add: n save_image_state_Some max_stack_size_def)
  from n have "\<exists>new. apply_edit cv e st = (save_image_state cv st)\<lparr> current_image := Some new \<rparr>"
    by blast
  with adj sliders dflt frame stacks show ?thesis by blast
qed

theorem edits_record_before_mutation_witness:
  "current_image gray_session = Some (Gray [[10]])
   \<and> original_image gray_session = Some (Gray [[10]])
   \<and> current_image (apply_edit test_cv Invert gray_session) = Some (Gray [[245]])
   \<and> undo_stack (apply_edit test_cv Invert gray_session) = [[255, 10]]
   \<and> redo_stack (apply_edit test_cv Invert gray_session) = []
   \<and> has_unsaved_changes (apply_edit test_cv Invert gray_session)
   \<and> undo_stack (apply_hue test_cv 30 gray_session) = []
   \<and> saturation_slider gray_session \<noteq> 150
   \<and> current_image (apply_saturation_default test_cv gray_session)
       = Some (Color [[[10, 15, 10]]])
   \<and> undo_stack (apply_saturation_default test_cv gray_session) = []
   \<and> redo_stack (apply_saturation_default test_cv gray_session) = []
   \<and> \<not> has_unsaved_changes (apply_saturation_default test_cv gray_session)"
proof -
  have img: "current_image gray_session = Some (Gray [[10]])"
    and orig: "original_image gray_session = Some (Gray [[10]])"
    by (simp_all add: gray_session_def load_image_from_path_def init_session_def)
  have stack: "undo_stack gray_session = []" "redo_stack gray_session = []"
    "\<not> has_unsaved_changes gray_session" "saturation_slider gray_session = 100"
    by (simp_all add: gray_session_def load_image_from_path_def init_session_def)
  have inv: "current_image (apply_edit test_cv Invert gray_session) = Some (Gray [[245]])"
    by (simp add: apply_invert_def bitwise_not_def img)
  have sat: "saturate_frame test_cv 150 (Gray [[10]]) = Color [[[10, 15, 10]]]"
    by (simp add: saturate_frame_def saturation_scaled_def test_cv_simps Let_def)
  note t = edits_record_before_mutation [OF img orig, of test_cv Invert 30]
  from t have e: "undo_stack (apply_edit test_cv Invert gray_session) = [[255, 10]]"
    "redo_stack (apply_edit test_cv Invert gray_session) = []"
    "has_unsaved_changes (apply_edit test_cv Invert gray_session)"
    by (simp_all add: stack compress_image_def test_cv_simps)
  from t have "undo_stack (apply_hue test_cv 30 gray_session) = undo_stack gray_session"
    by blast
  then have h: "undo_stack (apply_hue test_cv 30 gray_session) = []"
    by (simp only: stack)
  from t have "undo_stack (apply_saturation_default test_cv gray_session) = undo_stack gray_session"
    "redo_stack (apply_saturation_default test_cv gray_session) = redo_stack gray_session"
    "has_unsaved_changes (apply_saturation_default test_cv gray_session)
      = has_unsaved_changes gray_session"
    by blast+
  then have d: "undo_stack (apply_saturation_default test_cv gray_session) = []"
    "redo_stack (apply_saturation_default test_cv gray_session) = []"
    "\<not> has_unsaved_changes (apply_saturation_default test_cv gray_session)"
    by (simp_all only: stack not_False_eq_True)
  have ne: "saturation_slider gray_session \<noteq> 150"
    by (simp add: stack)
  with t have "current_image (apply_saturation_default test_cv gray_session)
      = Some (saturate_frame test_cv 150 (Gray [[10]]))"
    by blast
  then have f: "current_image (apply_saturation_default test_cv gray_session)
      = Some (Color [[[10, 15, 10]]])"
    by (simp only: sat)
  from img orig inv e h ne f d show ?thesis by blast
qed

text \<open>
  Claim C1 as stated fails for the adjustments: moving the brightness to 30 on a freshly
  loaded image changes the frame (the sample 10 becomes 40) and leaves the undo stack
  empty and the session marked as unchanged.
\<close>

theorem brightness_records_nothing:
  "current_image gray_session = Some (Gray [[10]])
   \<and> current_image (apply_brightness 30 gray_session) = Some (Gray [[40]])
   \<and> undo_stack (apply_brightness 30 gray_session) = []
   \<and> \<not> has_unsaved_changes (apply_brightness 30 gray_session)"
  by (simp add: gray_session_def load_image_from_path_def init_session_def
      apply_brightness_def clamp_def convertScaleAbs_beta_def Let_def)

lemma gray_session_simps:
  "current_image gray_session = Some (Gray [[10]])"
  "original_image gray_session = Some (Gray [[10]])"
  "undo_stack gray_session = []"
  "redo_stack gray_session = []"
  "has_unsaved_changes gray_session = False"
  "brightness_base gray_session = None"
  "contrast_base gray_session = None"
  by (simp_all add: gray_session_def load_image_from_path_def init_session_def)

lemma color_session_simps:
  "current_image color_session = Some (Color [[[170, 100, 50]]])"
  "original_image color_session = Some (Color [[[170, 100, 50]]])"
  "undo_stack color_session = []"
  "redo_stack color_session = []"
  "has_unsaved_changes color_session = False"
  "brightness_base color_session = None"
  "contrast_base color_session = None"
  by (simp_all add: color_session_def load_image_from_path_def init_session_def)

section \<open>Grayscale on a grayscale frame\<close>

text \<open>
  Claim C10. Applying the grayscale operation to a frame that is already single-channel
  leaves the frame unchanged, and still pushes the compressed frame onto the undo stack
  (dropping the oldest entry when 20 were held), clears the redo stack and marks the
  session as changed.
\<close>

theorem grayscale_on_gray_frame:
  assumes "current_image st = Some (Gray rows)"
  shows "current_image (apply_grayscale cv st) = Some (Gray rows)
       \<and> undo_stack (apply_grayscale cv st) =
           (if 20 \<le> length (undo_stack st)
            then tl (undo_stack st) @ [compress_image cv (Gray rows)]
            else undo_stack st @ [compress_image cv (Gray rows)])
       \<and> redo_stack (apply_grayscale cv st) = []
       \<and> has_unsaved_changes (apply_grayscale cv st)"
  using assms
  by (simp add: apply_grayscale_def save_image_state_Some max_stack_size_def)

theorem grayscale_on_gray_frame_witness:
  "current_image gray_session = Some (Gray [[10]])
   \<and> current_image (apply_grayscale test_cv gray_session) = Some (Gray [[10]])
   \<and> undo_stack (apply_grayscale test_cv gray_session) = [[255, 10]]
   \<and> redo_stack (apply_grayscale test_cv gray_session) = []
   \<and> has_unsaved_changes (apply_grayscale test_cv gray_session)"
  using grayscale_on_gray_frame [of gray_session "[[10]]" test_cv]
  by (simp add: gray_session_simps compress_image_def test_cv_def)

section \<open>Brightness\<close>

lemma uint_convertScaleAbs_beta:
  "uint (convertScaleAbs_beta beta s) = min 255 \<bar>uint s + beta\<bar>"
proof -
  have "0 \<le> min 255 \<bar>uint s + beta\<bar>" "min 255 \<bar>uint s + beta\<bar> < 2 ^ 8"
    by simp_all
  then show ?thesis
    unfolding convertScaleAbs_beta_def
    by (simp add: uint_word_of_int take_bit_int_eq_self del: min_less_iff_disj)
qed

text \<open>
  Claim C9 says that every output sample is \<open>min(255, max(0, sample + v))\<close>. The code
  takes the absolute value of the sum before saturating, so it returns
  \<open>min(255, |sample + v|)\<close>: on the sample 10 with \<open>v = -50\<close> it returns 40 where the claim
  says 0.
\<close>

theorem brightness_darkening_dark_sample:
  "current_image gray_session = Some (Gray [[10]])
   \<and> clamp (- 50) (- 100) 100 = - 50
   \<and> current_image (apply_brightness (- 50) gray_session) = Some (Gray [[40]])
   \<and> min 255 (max 0 (uint (10 :: sample) + (- 50))) = 0"
  by (simp add: gray_session_simps apply_brightness_def clamp_def convertScaleAbs_beta_def Let_def)

section \<open>Baselines\<close>

lemma reset_adjustments_clears:
  "brightness_base (reset_adjustments cv st) = None
   \<and> contrast_base (reset_adjustments cv st) = None"
  by (simp add: reset_adjustments_def Let_def)

text \<open>
  Claim C7 says that loading a new image clears the cached baselines. The reset of the
  adjustments does clear them, but \<open>_load_image_from_path\<close> does not: after brightness
  30 on a first image (sample 10) and the load of a second image (sample 200), the
  baseline is still the first image, and brightness 60 shows the first image
  brightened (sample 70), not the second.
\<close>

theorem load_keeps_stale_baseline:
  "brightness_base
     (load_image_from_path ''c.png'' (Some (Gray [[200]])) (apply_brightness 30 gray_session))
     = Some (Gray [[10]])
   \<and> current_image
     (apply_brightness 60
        (load_image_from_path ''c.png'' (Some (Gray [[200]])) (apply_brightness 30 gray_session)))
     = Some (Gray [[70]])
   \<and> brightness_base (reset_adjustments test_cv (apply_brightness 30 gray_session)) = None"
  by (simp add: gray_session_simps apply_brightness_def clamp_def convertScaleAbs_beta_def
      load_image_from_path_def reset_adjustments_def Let_def)

section \<open>Hue\<close>

lemma uint_shift_hue:
  "uint (shift_hue v h) = (uint h + v) mod 180"
proof -
  have "0 \<le> (uint h + v) mod 180" "(uint h + v) mod 180 < 180"
    by simp_all
  then have "(uint h + v) mod 180 < 2 ^ 8" by simp
  with \<open>0 \<le> (uint h + v) mod 180\<close> show ?thesis
    unfolding shift_hue_def by (simp add: uint_word_of_int take_bit_int_eq_self)
qed

text \<open>
  Claim C8, as the code has it. The hue adjustment first clamps the offset to
  \<open>[-180, 180]\<close>, then adds it to the hue channel modulo 180: the new hue is
  \<open>(hue + clamp v) mod 180\<close>, always below 180, never saturated and never an error. On
  a base hue of 170 the offset 190 is clamped to 180 and yields 170; the offset 10
  yields 0.
\<close>

theorem hue_offset_clamped_then_wrapped:
  assumes "current_image st = Some img"
  shows "current_image (apply_hue cv v st) =
           Some (HSV2BGR cv (hue_shifted (clamp v (- 180) 180)
                   (BGR2HSV cv (if ndim img = 2 then GRAY2BGR cv img else img))))
       \<and> hue_shifted (clamp v (- 180) 180) hsv =
           map (map (\<lambda>(h, s, x). (shift_hue (clamp v (- 180) 180) h, s, x))) hsv
       \<and> uint (shift_hue (clamp v (- 180) 180) h) = (uint h + clamp v (- 180) 180) mod 180
       \<and> uint (shift_hue (clamp v (- 180) 180) h) < 180
       \<and> - 180 \<le> clamp v (- 180) 180 \<and> clamp v (- 180) 180 \<le> 180
       \<and> shift_hue (clamp 190 (- 180) 180) 170 = 170
       \<and> shift_hue (clamp 10 (- 180) 180) 170 = 0"
proof -
  have "shift_hue (clamp 190 (- 180) 180) 170 = 170" "shift_hue (clamp 10 (- 180) 180) 170 = 0"
    by (simp_all add: shift_hue_def clamp_def)
  moreover have "- 180 \<le> clamp v (- 180) 180 \<and> clamp v (- 180) 180 \<le> 180"
    by (simp add: clamp_def)
  moreover have "current_image (apply_hue cv v st) =
           Some (HSV2BGR cv (hue_shifted (clamp v (- 180) 180)
                   (BGR2HSV cv (if ndim img = 2 then GRAY2BGR cv img else img))))"
    using assms by (simp add: apply_hue_def hue_frame_def Let_def)
  ultimately show ?thesis
    by (simp add: uint_shift_hue hue_shifted_def)
qed

theorem hue_offset_clamped_then_wrapped_witness:
  "current_image color_session = Some (Color [[[170, 100, 50]]])
   \<and> current_image (apply_hue test_cv 10 color_session) = Some (Color [[[0, 100, 50]]])"
  using hue_offset_clamped_then_wrapped [of color_session "Color [[[170, 100, 50]]]" test_cv 10]
  by (simp add: color_session_simps test_cv_def hue_shifted_def shift_hue_def clamp_def)

text \<open>
  Claim C8 as stated fails: for a pixel of hue 170, \<open>apply_hue\<close> with 190 yields hue 170,
  not 0.
\<close>

theorem hue_190_on_170_stays_170:
  "clamp 190 (- 180) 180 = 180
   \<and> shift_hue (clamp 190 (- 180) 180) 170 = 170
   \<and> shift_hue (clamp 190 (- 180) 180) 170 \<noteq> 0
   \<and> BGR2HSV test_cv (Color [[[170, 100, 50]]]) = [[(170, 100, 50)]]
   \<and> current_image (apply_hue test_cv 190 color_session) = Some (Color [[[170, 100, 50]]])"
  by (simp add: color_session_simps test_cv_def apply_hue_def hue_frame_def hue_shifted_def
      shift_hue_def clamp_def Let_def)

section \<open>Cached baselines against the live frame\<close>

lemma apply_brightness_twice:
  "apply_brightness v2 (apply_brightness v1 st) = apply_brightness v2 st"
  by (cases "current_image st"; cases "brightness_base st")
    (simp_all add: apply_brightness_def Let_def)

lemma apply_contrast_twice:
  "apply_contrast cv v2 (apply_contrast cv v1 st) = apply_contrast cv v2 st"
  by (cases "current_image st"; cases "contrast_base st")
    (simp_all add: apply_contrast_def Let_def)

text \<open>
  Claim C4. A second brightness (contrast) adjustment gives the session that the second
  value alone gives, whatever the first value was; with a baseline cached, the result
  is computed from the baseline and the value only. Saturation and hue are computed
  from the current frame, so a second call works on the result of the first.
\<close>

theorem baseline_adjustments_do_not_compound:
  "apply_brightness v2 (apply_brightness v1 st) = apply_brightness v2 st
   \<and> apply_contrast cv v2 (apply_contrast cv v1 st) = apply_contrast cv v2 st
   \<and> (current_image st = Some img \<longrightarrow> brightness_base st = Some b \<longrightarrow>
        current_image (apply_brightness v st) =
          Some (map_samples (convertScaleAbs_beta (clamp v (- 100) 100)) b)
        \<and> brightness_base (apply_brightness v st) = Some b)
   \<and> (current_image st = Some img \<longrightarrow> contrast_base st = Some c \<longrightarrow>
        current_image (apply_contrast cv v st) =
          Some (map_samples (scale_abs cv (clamp v 0 200)) c)
        \<and> contrast_base (apply_contrast cv v st) = Some c)
   \<and> (current_image st = Some img \<longrightarrow>
        current_image (apply_saturation cv w2 (apply_saturation cv w1 st)) =
          Some (saturate_frame cv (clamp w2 0 200) (saturate_frame cv (clamp w1 0 200) img))
        \<and> current_image (apply_hue cv w2 (apply_hue cv w1 st)) =
          Some (hue_frame cv (clamp w2 (- 180) 180) (hue_frame cv (clamp w1 (- 180) 180) img)))"
  by (simp add: apply_brightness_twice apply_contrast_twice)
    (simp add: apply_brightness_def apply_contrast_def apply_saturation_def apply_hue_def Let_def)

lemma adjusted_session_simps:
  "current_image adjusted_session = Some (Gray [[48]])"
  "brightness_base adjusted_session = Some (Gray [[10]])"
  "contrast_base adjusted_session = Some (Gray [[40]])"
  by (simp_all add: adjusted_session_def gray_session_simps apply_brightness_def
      apply_contrast_def clamp_def convertScaleAbs_beta_def test_cv_def Let_def)

theorem baseline_adjustments_do_not_compound_witness:
  "current_image adjusted_session = Some (Gray [[48]])
   \<and> brightness_base adjusted_session = Some (Gray [[10]])
   \<and> contrast_base adjusted_session = Some (Gray [[40]])
   \<and> current_image (apply_brightness 60 (apply_brightness 30 adjusted_session))
       = Some (Gray [[70]])
   \<and> current_image (apply_brightness 60 adjusted_session) = Some (Gray [[70]])
   \<and> current_image (apply_contrast test_cv 60 adjusted_session) = Some (Gray [[24]])
   \<and> current_image (apply_saturation test_cv 150 adjusted_session)
       = Some (Color [[[48, 72, 48]]])
   \<and> current_image (apply_saturation test_cv 150 (apply_saturation test_cv 150 adjusted_session))
       = Some (Color [[[48, 108, 48]]])"
proof -
  have s1: "saturate_frame test_cv (clamp 150 0 200) (Gray [[48]]) = Color [[[48, 72, 48]]]"
    by (simp add: saturate_frame_def saturation_scaled_def clamp_def test_cv_def Let_def)
  have s2: "saturate_frame test_cv (clamp 150 0 200) (Color [[[48, 72, 48]]])
      = Color [[[48, 108, 48]]]"
    by (simp add: saturate_frame_def saturation_scaled_def clamp_def test_cv_def Let_def)
  have once: "current_image (apply_saturation test_cv 150 adjusted_session)
      = Some (Color [[[48, 72, 48]]])"
    by (simp add: apply_saturation_def adjusted_session_simps s1 Let_def)
  have b: "map_samples (convertScaleAbs_beta (clamp 60 (- 100) 100)) (Gray [[10]]) = Gray [[70]]"
    by (simp add: clamp_def convertScaleAbs_beta_def)
  have c: "map_samples (scale_abs test_cv (clamp 60 0 200)) (Gray [[40]]) = Gray [[24]]"
    by (simp add: clamp_def test_cv_def)
  show ?thesis
    using baseline_adjustments_do_not_compound
      [where ?v2.0 = 60 and ?v1.0 = 30 and st = adjusted_session and cv = test_cv
         and ?w2.0 = 150 and ?w1.0 = 150 and img = "Gray [[48]]" and b = "Gray [[10]]"
         and v = 60 and c = "Gray [[40]]"]
      s1 s2 once b c
    by (simp add: adjusted_session_simps)
qed


section \<open>The bound on the history\<close>

lemma save_image_state_bounded:
  "history_bounded st \<Longrightarrow> history_bounded (save_image_state cv st)"
  by (auto simp: history_bounded_def save_image_state_def Let_def max_stack_size_def
      split: option.splits)

lemma stacks_brightness [simp]:
  "undo_stack (apply_brightness v st) = undo_stack st"
  "redo_stack (apply_brightness v st) = redo_stack st"
  by (simp_all add: apply_brightness_def Let_def split: option.splits)

lemma stacks_contrast [simp]:
  "undo_stack (apply_contrast cv v st) = undo_stack st"
  "redo_stack (apply_contrast cv v st) = redo_stack st"
  by (simp_all add: apply_contrast_def Let_def split: option.splits)

lemma stacks_saturation [simp]:
  "undo_stack (apply_saturation cv v st) = undo_stack st"
  "redo_stack (apply_saturation cv v st) = redo_stack st"
  by (simp_all add: apply_saturation_def Let_def split: option.splits)

lemma stacks_hue [simp]:
  "undo_stack (apply_hue cv v st) = undo_stack st"
  "redo_stack (apply_hue cv v st) = redo_stack st"
  by (simp_all add: apply_hue_def Let_def split: option.splits)

lemma sliders_bounded:
  "history_bounded st \<Longrightarrow> history_bounded (set_brightness_slider v st)"
  "history_bounded st \<Longrightarrow> history_bounded (set_contrast_slider cv v st)"
  "history_bounded st \<Longrightarrow> history_bounded (set_saturation_slider cv v st)"
  "history_bounded st \<Longrightarrow> history_bounded (set_hue_slider cv v st)"
  by (simp_all add: history_bounded_def set_brightness_slider_def set_contrast_slider_def
      set_saturation_slider_def set_hue_slider_def split: option.splits)

lemma reset_adjustments_bounded:
  "history_bounded st \<Longrightarrow> history_bounded (reset_adjustments cv st)"
  using sliders_bounded
  by (simp add: reset_adjustments_def Let_def history_bounded_def)

lemma apply_edit_stacks:
  "(undo_stack (apply_edit cv e st) = undo_stack st \<and> redo_stack (apply_edit cv e st) = redo_stack st)
   \<or> (undo_stack (apply_edit cv e st) = undo_stack (save_image_state cv st)
      \<and> redo_stack (apply_edit cv e st) = redo_stack (save_image_state cv st))"
  by (cases e)
    (simp_all add: apply_grayscale_def apply_blur_def apply_sharpen_def apply_edge_detection_def
      apply_sepia_def apply_invert_def apply_histogram_equalization_def
      apply_adaptive_thresholding_def rotate_left_def rotate_right_def flip_horizontal_def
      flip_vertical_def reset_image_def Let_def split: option.splits)

lemma apply_edit_bounded:
  "history_bounded st \<Longrightarrow> history_bounded (apply_edit cv e st)"
  using apply_edit_stacks [of cv e st] save_image_state_bounded [of st cv]
  by (auto simp: history_bounded_def)

lemma undo_bounded:
  "history_bounded st \<Longrightarrow> undo cv st = Inr st' \<Longrightarrow> history_bounded st'"
  by (cases "undo_stack st" rule: rev_cases)
    (auto simp: undo_def history_bounded_def split: option.splits)

lemma redo_bounded:
  "history_bounded st \<Longrightarrow> redo cv st = Inr st' \<Longrightarrow> history_bounded st'"
  by (cases "redo_stack st" rule: rev_cases)
    (auto simp: redo_def history_bounded_def split: option.splits)

lemma load_bounded:
  "history_bounded st \<Longrightarrow> history_bounded (load_image_from_path path loaded st)"
  by (simp add: load_image_from_path_def history_bounded_def split: option.splits)

lemma log_command_bounded:
  "history_bounded st \<Longrightarrow> history_bounded (log_command command st)"
  by (simp add: log_command_def history_bounded_def Let_def)

lemma run_command_bounded:
  "history_bounded st \<Longrightarrow> run_command cv c st = Inr st' \<Longrightarrow> history_bounded st'"
  by (cases c)
    (auto simp: apply_edit_bounded apply_saturation_default_def sliders_bounded
      dest: undo_bounded redo_bounded)

lemma parameterized_bounded:
  "history_bounded st \<Longrightarrow> parameterized cv cmd st = Inr st' \<Longrightarrow> history_bounded st'"
  by (auto simp: parameterized_def sliders_bounded split: option.splits sum.splits)

lemma handle_command_bounded:
  "history_bounded st \<Longrightarrow> handle_command cv command st = Inr st' \<Longrightarrow> history_bounded st'"
  using run_command_bounded [of "log_command command st" cv _ st']
    parameterized_bounded [of "log_command command st" cv _ st']
    log_command_bounded [of st command]
  by (auto simp: handle_command_def Let_def split: option.splits if_splits)

lemma step_bounded:
  "history_bounded st \<Longrightarrow> step cv ev st = Inr st' \<Longrightarrow> history_bounded st'"
  by (cases ev)
    (auto simp: load_bounded apply_edit_bounded sliders_bounded reset_adjustments_bounded
      dest: undo_bounded redo_bounded handle_command_bounded)

lemma reachable_bounded: "reachable cv st \<Longrightarrow> history_bounded st"
proof (induction rule: reachable.induct)
  case initial
  show ?case by (simp add: history_bounded_def init_session_def)
next
  case (after st ev st')
  then show ?case by (blast intro: step_bounded)
qed

text \<open>
  Claim C3. In every session the user can reach, by any interleaving of loads, edits,
  undos, redos, slider moves and spoken commands, the undo stack holds at most 20
  snapshots (the two stacks together do, which is why the push in \<open>redo\<close> needs no
  check of its own), after every further step as well; a push onto a stack of 20
  drops the oldest entry, at index 0, and puts the new snapshot on top.
\<close>

theorem undo_stack_bounded_oldest_evicted:
  assumes "reachable cv st"
  shows "length (undo_stack st) \<le> 20
       \<and> length (undo_stack st) + length (redo_stack st) \<le> 20
       \<and> (\<forall>ev st'. step cv ev st = Inr st' \<longrightarrow> length (undo_stack st') \<le> 20)
       \<and> (\<forall>img. current_image st = Some img \<longrightarrow> length (undo_stack st) = 20 \<longrightarrow>
            undo_stack (save_image_state cv st) = tl (undo_stack st) @ [compress_image cv img]
            \<and> length (undo_stack (save_image_state cv st)) = 20)
       \<and> (\<forall>img. current_image st = Some img \<longrightarrow> length (undo_stack st) < 20 \<longrightarrow>
            undo_stack (save_image_state cv st) = undo_stack st @ [compress_image cv img])"
proof -
  have b: "history_bounded st" using assms by (rule reachable_bounded)
  have "\<forall>ev st'. step cv ev st = Inr st' \<longrightarrow> length (undo_stack st') \<le> 20"
  proof (intro allI impI)
    fix ev st'
    assume "step cv ev st = Inr st'"
    from step_bounded [OF b this] show "length (undo_stack st') \<le> 20"
      by (simp add: history_bounded_def max_stack_size_def)
  qed
  with b show ?thesis
    by (auto simp: history_bounded_def max_stack_size_def save_image_state_Some)
qed


lemma reachable_load: "reachable cv st \<Longrightarrow> reachable cv (load_image_from_path p l st)"
  by (rule reachable.after [where ev = "LoadImage p l"]) simp_all

lemma reachable_run_edits: "reachable cv st \<Longrightarrow> reachable cv (run_edits cv es st)"
proof (induction es arbitrary: st)
  case Nil
  then show ?case by simp
next
  case (Cons e es)
  have "reachable cv (apply_edit cv e st)"
    by (rule reachable.after [OF Cons.prems, where ev = "Press e"]) simp
  then show ?case using Cons.IH by simp
qed


lemma full_session_stack:
  "undo_stack full_session =
     [[255, 10], [255, 245], [255, 10], [255, 245], [255, 10], [255, 245], [255, 10],
      [255, 245], [255, 10], [255, 245], [255, 10], [255, 245], [255, 10], [255, 245],
      [255, 10], [255, 245], [255, 10], [255, 245], [255, 10], [255, 245]]"
  "current_image full_session = Some (Gray [[10]])"
  unfolding full_session_def by code_simp+

theorem undo_stack_bounded_oldest_evicted_witness:
  "reachable test_cv full_session
   \<and> length (undo_stack full_session) = 20
   \<and> hd (undo_stack full_session) = [255, 10]
   \<and> current_image full_session = Some (Gray [[10]])
   \<and> undo_stack (save_image_state test_cv full_session)
       = tl (undo_stack full_session) @ [[255, 10]]
   \<and> hd (undo_stack (save_image_state test_cv full_session)) = [255, 245]
   \<and> length (undo_stack (save_image_state test_cv full_session)) = 20"
proof -
  have "reachable test_cv gray_session"
    unfolding gray_session_def by (intro reachable_load reachable.initial)
  then have r: "reachable test_cv full_session"
    unfolding full_session_def by (rule reachable_run_edits)
  show ?thesis
    using undo_stack_bounded_oldest_evicted [OF r] r
    by (simp add: full_session_stack compress_image_def test_cv_simps)
qed


section \<open>Undo and redo over a sequence of edits\<close>

lemma run_edits_snoc: "run_edits cv (es @ [e]) st = apply_edit cv e (run_edits cv es st)"
  by (induction es arbitrary: st) simp_all

lemma frames_snoc:
  "frames cv (es @ [e]) st = frames cv es st @ [current_image (run_edits cv (es @ [e]) st)]"
  by (induction es arbitrary: st) simp_all

lemma frames_last: "last (frames cv es st) = current_image (run_edits cv es st)"
  by (induction es arbitrary: st) (simp_all, (case_tac es; simp))

lemma frames_length: "length (frames cv es st) = Suc (length es)"
  by (induction es arbitrary: st) simp_all

lemma original_image_apply_edit [simp]:
  "original_image (apply_edit cv e st) = original_image st"
  by (cases e)
    (simp_all add: apply_grayscale_def apply_blur_def apply_sharpen_def apply_edge_detection_def
      apply_sepia_def apply_invert_def apply_histogram_equalization_def
      apply_adaptive_thresholding_def rotate_left_def rotate_right_def flip_horizontal_def
      flip_vertical_def reset_image_def save_image_state_def Let_def split: option.splits)

lemma original_image_run_edits [simp]:
  "original_image (run_edits cv es st) = original_image st"
  by (induction es arbitrary: st) simp_all

lemma apply_edit_after:
  assumes "current_image st = Some img" "original_image st = Some orig"
  shows "\<exists>new. current_image (apply_edit cv e st) = Some new
       \<and> undo_stack (apply_edit cv e st) =
           (if max_stack_size \<le> length (undo_stack st)
            then tl (undo_stack st) @ [compress_image cv img]
            else undo_stack st @ [compress_image cv img])
       \<and> redo_stack (apply_edit cv e st) = []"
proof -
  obtain new where "apply_edit cv e st = (save_image_state cv st)\<lparr> current_image := Some new \<rparr>"
    using apply_edit_shape [OF assms] by blast
  then show ?thesis using assms by (simp add: save_image_state_Some)
qed

lemma run_edits_stack:
  assumes "current_image st = Some img" "original_image st = Some orig"
  shows "length es \<le> max_stack_size \<Longrightarrow>
     \<exists>pre fs g. undo_stack (run_edits cv es st) = pre @ map (compress_image cv) fs
       \<and> map Some fs = butlast (frames cv es st)
       \<and> current_image (run_edits cv es st) = Some g
       \<and> (es \<noteq> [] \<longrightarrow> redo_stack (run_edits cv es st) = [])"
proof (induction es rule: rev_induct)
  case Nil
  show ?case using assms by (intro exI [of _ "undo_stack st"] exI [of _ "[]"]) simp
next
  case (snoc e es)
  then obtain pre fs g where
    st: "undo_stack (run_edits cv es st) = pre @ map (compress_image cv) fs"
    and fs: "map Some fs = butlast (frames cv es st)"
    and g: "current_image (run_edits cv es st) = Some g"
    by auto
  have len: "length fs = length es"
    using fs frames_length [of cv es st] by (metis length_map length_butlast diff_Suc_1)
  have orig': "original_image (run_edits cv es st) = Some orig" using assms by simp
  obtain new where
    new: "current_image (apply_edit cv e (run_edits cv es st)) = Some new"
    and u: "undo_stack (apply_edit cv e (run_edits cv es st)) =
           (if max_stack_size \<le> length (undo_stack (run_edits cv es st))
            then tl (undo_stack (run_edits cv es st)) @ [compress_image cv g]
            else undo_stack (run_edits cv es st) @ [compress_image cv g])"
    and r: "redo_stack (apply_edit cv e (run_edits cv es st)) = []"
    using apply_edit_after [OF g orig', of cv e] by blast
  have fr: "butlast (frames cv (es @ [e]) st) = map Some (fs @ [g])"
    using fs g frames_last [of cv es st] frames_length [of cv es st]
    by (simp add: frames_snoc) (metis append_butlast_last_id frames.simps(1) length_0_conv
        nat.distinct(1) list.distinct(1) frames_length)
  show ?case
  proof (cases "max_stack_size \<le> length (undo_stack (run_edits cv es st))")
    case True
    with st len snoc.prems have "pre \<noteq> []" by auto
    then have "tl (pre @ map (compress_image cv) fs) = tl pre @ map (compress_image cv) fs"
      by simp
    with True u st have "undo_stack (run_edits cv (es @ [e]) st)
        = tl pre @ map (compress_image cv) (fs @ [g])"
      by (simp add: run_edits_snoc)
    with fr new r show ?thesis
      by (metis run_edits_snoc)
  next
    case False
    with u st have "undo_stack (run_edits cv (es @ [e]) st)
        = pre @ map (compress_image cv) (fs @ [g])"
      by (simp add: run_edits_snoc)
    with fr new r show ?thesis
      by (metis run_edits_snoc)
  qed
qed


lemma undo_all:
  assumes codec: "\<forall>f. roundtrip cv f \<noteq> None"
  shows "undo_stack st = pre @ map (compress_image cv) fs \<Longrightarrow> current_image st = Some g \<Longrightarrow>
     undo_trace cv (length fs) st = map (roundtrip cv) (rev fs)
     \<and> (\<exists>s. undo_n cv (length fs) st = Inr s \<and> undo_stack s = pre
          \<and> redo_stack s = redo_stack st @ map (compress_image cv)
               (if fs = [] then [] else g # map (\<lambda>f. the (roundtrip cv f)) (rev (tl fs)))
          \<and> current_image s = (if fs = [] then Some g else roundtrip cv (hd fs)))"
proof (induction fs arbitrary: st g rule: rev_induct)
  case Nil
  then show ?case by simp
next
  case (snoc f fs)
  obtain g' where g': "roundtrip cv f = Some g'"
    using codec by (cases "roundtrip cv f") (auto dest: spec [of _ f])
  define st1 where "st1 = st\<lparr> redo_stack := redo_stack st @ [compress_image cv g],
      current_image := Some g', undo_stack := pre @ map (compress_image cv) fs \<rparr>"
  have u: "undo cv st = Inr st1"
    using snoc.prems g' by (simp add: undo_def st1_def roundtrip_def butlast_append)
  have st1: "undo_stack st1 = pre @ map (compress_image cv) fs" "current_image st1 = Some g'"
    "redo_stack st1 = redo_stack st @ [compress_image cv g]"
    by (simp_all add: st1_def)
  from snoc.IH [OF st1(1) st1(2)] obtain s where
    tr: "undo_trace cv (length fs) st1 = map (roundtrip cv) (rev fs)"
    and s: "undo_n cv (length fs) st1 = Inr s" "undo_stack s = pre"
      "redo_stack s = redo_stack st1 @ map (compress_image cv)
               (if fs = [] then [] else g' # map (\<lambda>f. the (roundtrip cv f)) (rev (tl fs)))"
      "current_image s = (if fs = [] then Some g' else roundtrip cv (hd fs))"
    by blast
  have "undo_trace cv (length (fs @ [f])) st = map (roundtrip cv) (rev (fs @ [f]))"
    using u tr st1 g' by simp
  moreover have "undo_n cv (length (fs @ [f])) st = Inr s"
    using u s by simp
  moreover have "redo_stack s = redo_stack st @ map (compress_image cv)
      (g # map (\<lambda>f. the (roundtrip cv f)) (rev (tl (fs @ [f]))))"
    using s(3) st1(3) g' by (cases fs) simp_all
  moreover have "current_image s = roundtrip cv (hd (fs @ [f]))"
    using s(4) g' by (cases fs) simp_all
  ultimately show ?case using s(2) by simp
qed

lemma redo_all:
  assumes codec: "\<forall>f. roundtrip cv f \<noteq> None"
  shows "redo_stack st = pre @ map (compress_image cv) fs \<Longrightarrow> current_image st = Some g \<Longrightarrow>
     redo_trace cv (length fs) st = map (roundtrip cv) (rev fs)
     \<and> (\<exists>s. redo_n cv (length fs) st = Inr s \<and> redo_stack s = pre
          \<and> length (undo_stack s) = length (undo_stack st) + length fs)"
proof (induction fs arbitrary: st g rule: rev_induct)
  case Nil
  then show ?case by simp
next
  case (snoc f fs)
  obtain g' where g': "roundtrip cv f = Some g'"
    using codec by (cases "roundtrip cv f") (auto dest: spec [of _ f])
  define st1 where "st1 = st\<lparr> undo_stack := undo_stack st @ [compress_image cv g],
      current_image := Some g', redo_stack := pre @ map (compress_image cv) fs \<rparr>"
  have u: "redo cv st = Inr st1"
    using snoc.prems g' by (simp add: redo_def st1_def roundtrip_def butlast_append)
  have st1: "redo_stack st1 = pre @ map (compress_image cv) fs" "current_image st1 = Some g'"
    "undo_stack st1 = undo_stack st @ [compress_image cv g]"
    by (simp_all add: st1_def)
  from snoc.IH [OF st1(1) st1(2)] obtain s where
    tr: "redo_trace cv (length fs) st1 = map (roundtrip cv) (rev fs)"
    and s: "redo_n cv (length fs) st1 = Inr s" "redo_stack s = pre"
      "length (undo_stack s) = length (undo_stack st1) + length fs"
    by blast
  have "redo_trace cv (length (fs @ [f])) st = map (roundtrip cv) (rev (fs @ [f]))"
    using u tr st1 g' by simp
  moreover have "redo_n cv (length (fs @ [f])) st = Inr s"
    using u s by simp
  ultimately show ?case using s(2,3) st1(3) by simp
qed


text \<open>
  Claim C2. After at most 20 edits on a loaded image, with a codec that decodes what it
  encoded, undoing as many times as there were edits shows the frames before each edit,
  each through one compression round trip, from the latest back to the first; redoing
  as many times shows the frames after each edit, from the first to the latest, the
  last through one round trip and the others through two. The undoing empties the
  redone part of the undo stack, and the redoing returns both stacks to the lengths
  they had after the edits.
\<close>

theorem undo_all_then_redo_all:
  assumes img: "current_image st = Some img" and orig: "original_image st = Some orig"
    and codec: "\<forall>f. roundtrip cv f \<noteq> None"
    and n: "length es \<le> 20"
  shows "\<exists>sU sR.
       undo_n cv (length es) (run_edits cv es st) = Inr sU
     \<and> redo_n cv (length es) sU = Inr sR
     \<and> undo_trace cv (length es) (run_edits cv es st) =
         map (\<lambda>f. Option.bind f (roundtrip cv)) (rev (butlast (frames cv es st)))
     \<and> redo_trace cv (length es) sU =
         (if es = [] then []
          else map (\<lambda>f. Option.bind (Option.bind f (roundtrip cv)) (roundtrip cv))
                 (butlast (tl (frames cv es st)))
               @ [Option.bind (last (frames cv es st)) (roundtrip cv)])
     \<and> length (undo_stack sU) = length (undo_stack (run_edits cv es st)) - length es
     \<and> length (redo_stack sU) = length (redo_stack (run_edits cv es st)) + length es
     \<and> length (undo_stack sR) = length (undo_stack (run_edits cv es st))
     \<and> length (redo_stack sR) = length (redo_stack (run_edits cv es st))"
proof (cases "es = []")
  case True
  then show ?thesis by simp
next
  case False
  let ?sN = "run_edits cv es st"
  let ?c = "compress_image cv"
  let ?rt = "roundtrip cv"
  from n have "length es \<le> max_stack_size" by (simp add: max_stack_size_def)
  from run_edits_stack [OF img orig this, of cv] False obtain pre fs g where
    u: "undo_stack ?sN = pre @ map ?c fs"
    and fs: "map Some fs = butlast (frames cv es st)"
    and g: "current_image ?sN = Some g"
    and r: "redo_stack ?sN = []"
    by blast
  have len: "length fs = length es"
    using fs frames_length [of cv es st] by (metis length_map length_butlast diff_Suc_1)
  with False have fs_ne: "fs \<noteq> []" by auto
  have F: "frames cv es st = map Some fs @ [Some g]"
    using fs g frames_last [of cv es st] frames_length [of cv es st]
    by (metis append_butlast_last_id length_0_conv nat.distinct(1))
  let ?gs = "g # map (\<lambda>f. the (?rt f)) (rev (tl fs))"
  from undo_all [OF codec u g] fs_ne len r obtain sU where
    ut: "undo_trace cv (length es) ?sN = map ?rt (rev fs)"
    and sU: "undo_n cv (length es) ?sN = Inr sU" "undo_stack sU = pre"
      "redo_stack sU = [] @ map ?c ?gs" "current_image sU = ?rt (hd fs)"
    by auto
  obtain h where h: "current_image sU = Some h"
    using sU(4) codec by (cases "?rt (hd fs)") (auto dest: spec [of _ "hd fs"])
  have lgs: "length ?gs = length es"
    using len fs_ne by (cases fs) simp_all
  have "redo_trace cv (length ?gs) sU = map ?rt (rev ?gs)
     \<and> (\<exists>s. redo_n cv (length ?gs) sU = Inr s \<and> redo_stack s = []
          \<and> length (undo_stack s) = length (undo_stack sU) + length ?gs)"
    by (rule redo_all [OF codec sU(3) h])
  then obtain sR where
    rt: "redo_trace cv (length es) sU = map ?rt (rev ?gs)"
    and sR: "redo_n cv (length es) sU = Inr sR" "redo_stack sR = []"
      "length (undo_stack sR) = length (undo_stack sU) + length es"
    unfolding lgs by blast
  have twice: "\<And>f. Option.bind (?rt f) ?rt = ?rt (the (?rt f))"
    using codec by (metis bind.bind_lunit option.collapse)
  have t1: "map (\<lambda>f. Option.bind f ?rt) (rev (butlast (frames cv es st))) = map ?rt (rev fs)"
    by (simp add: F rev_map comp_def)
  have "tl (frames cv es st) = map Some (tl fs) @ [Some g]"
    using fs_ne by (cases fs) (simp_all add: F)
  then have t2: "map (\<lambda>f. Option.bind (Option.bind f ?rt) ?rt) (butlast (tl (frames cv es st)))
      @ [Option.bind (last (frames cv es st)) ?rt] = map ?rt (rev ?gs)"
    by (simp add: F comp_def twice rev_map)
  show ?thesis
    using sU sR ut rt t1 t2 u r False len by simp
qed


theorem undo_all_then_redo_all_witness:
  "current_image color_session = Some (Color [[[170, 100, 50]]])
   \<and> original_image color_session = Some (Color [[[170, 100, 50]]])
   \<and> (\<forall>f. roundtrip test_cv f \<noteq> None)
   \<and> length [Invert, Grayscale] \<le> 20
   \<and> frames test_cv [Invert, Grayscale] color_session =
       [Some (Color [[[170, 100, 50]]]), Some (Color [[[85, 155, 205]]]), Some (Gray [[85]])]
   \<and> undo_trace test_cv (length [Invert, Grayscale])
         (run_edits test_cv [Invert, Grayscale] color_session) =
       [Some (Gray [[85, 155, 205]]), Some (Gray [[170, 100, 50]])]
   \<and> (\<exists>sU sR. undo_n test_cv (length [Invert, Grayscale])
                  (run_edits test_cv [Invert, Grayscale] color_session) = Inr sU
        \<and> redo_n test_cv (length [Invert, Grayscale]) sU = Inr sR
        \<and> redo_trace test_cv (length [Invert, Grayscale]) sU =
            [Some (Gray [[85, 155, 205]]), Some (Gray [[85]])]
        \<and> length (undo_stack sU) = 0 \<and> length (redo_stack sU) = 2
        \<and> length (undo_stack sR) = 2 \<and> length (redo_stack sR) = 0)"
proof -
  have img: "current_image color_session = Some (Color [[[170, 100, 50]]])"
    and orig: "original_image color_session = Some (Color [[[170, 100, 50]]])"
    by (simp_all add: color_session_simps)
  have codec: "\<forall>f. roundtrip test_cv f \<noteq> None"
    by (simp add: roundtrip_test_cv)
  have len: "length [Invert, Grayscale] \<le> 20" by simp
  have inv: "apply_invert test_cv color_session =
      color_session\<lparr> undo_stack := [[255, 170, 100, 50]], redo_stack := [],
        has_unsaved_changes := True, current_image := Some (Color [[[85, 155, 205]]]) \<rparr>"
    by (simp add: apply_invert_def color_session_simps save_image_state_Some bitwise_not_def
        compress_image_def test_cv_simps max_stack_size_def)
  have gray: "apply_grayscale test_cv
      (color_session\<lparr> undo_stack := [[255, 170, 100, 50]], redo_stack := [],
        has_unsaved_changes := True, current_image := Some (Color [[[85, 155, 205]]]) \<rparr>) =
      color_session\<lparr> undo_stack := [[255, 170, 100, 50], [255, 85, 155, 205]], redo_stack := [],
        has_unsaved_changes := True, current_image := Some (Gray [[85]]) \<rparr>"
    by (simp add: apply_grayscale_def save_image_state_Some
        compress_image_def test_cv_simps max_stack_size_def Let_def)
  have fr: "frames test_cv [Invert, Grayscale] color_session =
       [Some (Color [[[170, 100, 50]]]), Some (Color [[[85, 155, 205]]]), Some (Gray [[85]])]"
    by (simp add: inv gray color_session_simps)
  have st: "undo_stack (run_edits test_cv [Invert, Grayscale] color_session)
       = [[255, 170, 100, 50], [255, 85, 155, 205]]"
     "redo_stack (run_edits test_cv [Invert, Grayscale] color_session) = []"
    by (simp_all add: inv gray)
  show ?thesis
    using undo_all_then_redo_all [OF img orig codec len] img orig codec fr st
    by (auto simp: roundtrip_test_cv)
qed



section \<open>The fuzzy phase\<close>

lemma best_match_loop_none_above:
  "\<forall>k \<in> set keys. r cmd k \<le> max 75 bs \<Longrightarrow> best_match_loop r cmd keys (bm, bs) = (bm, bs)"
  by (induction keys) (auto simp: Let_def)

lemma best_match_loop_first_max:
  "\<forall>k \<in> set pre. r cmd k < r cmd key \<Longrightarrow> max 75 bs < r cmd key \<Longrightarrow>
   \<forall>k \<in> set post. r cmd k \<le> r cmd key \<Longrightarrow>
   best_match_loop r cmd (pre @ key # post) (bm, bs) = (Some key, r cmd key)"
proof (induction pre arbitrary: bm bs)
  case Nil
  then show ?case
    using best_match_loop_none_above [of post r cmd "r cmd key" "Some key"]
    by (simp add: Let_def)
next
  case (Cons p pre)
  show ?case
  proof (cases "75 < r cmd p \<and> bs < r cmd p")
    case True
    have "best_match_loop r cmd (pre @ key # post) (Some p, r cmd p) = (Some key, r cmd key)"
      using Cons.prems True by (intro Cons.IH) simp_all
    with True show ?thesis by (simp add: Let_def)
  next
    case False
    have "best_match_loop r cmd (pre @ key # post) (bm, bs) = (Some key, r cmd key)"
      using Cons.prems by (intro Cons.IH) simp_all
    with False show ?thesis by (auto simp: Let_def)
  qed
qed

lemma first_max_split:
  assumes "\<exists>k \<in> set keys. t < f k"
  shows "\<exists>pre key post. keys = pre @ key # post \<and> t < f key
     \<and> (\<forall>k \<in> set pre. f k < f key) \<and> (\<forall>k \<in> set post. f k \<le> (f key :: nat))"
proof -
  define m where "m = Max (f ` set keys)"
  from assms have ne: "set keys \<noteq> {}" by auto
  then have "m \<in> f ` set keys" unfolding m_def by (intro Max_in) simp_all
  then have "\<exists>k \<in> set keys. f k = m" by auto
  from split_list_first_prop [OF this] obtain pre key post where
    s: "keys = pre @ key # post" "f key = m" "\<forall>y \<in> set pre. f y \<noteq> m"
    by blast
  have le: "\<And>k. k \<in> set keys \<Longrightarrow> f k \<le> m"
    unfolding m_def by (intro Max_ge) simp_all
  from assms obtain k0 where "k0 \<in> set keys" "t < f k0" by blast
  with le [of k0] have "t < m" by simp
  moreover have "\<forall>k \<in> set pre. f k < f key"
  proof
    fix k assume "k \<in> set pre"
    with s le [of k] show "f k < f key" by (auto simp: le_less)
  qed
  moreover have "\<forall>k \<in> set post. f k \<le> f key"
    using s le by auto
  ultimately show ?thesis using s by blast
qed

lemma fuzzy_match_None:
  "fuzzy_match r cmd = None \<longleftrightarrow> (\<forall>k \<in> set (map fst commands). r cmd k \<le> 75)"
proof
  assume n: "fuzzy_match r cmd = None"
  show "\<forall>k \<in> set (map fst commands). r cmd k \<le> 75"
  proof (rule ccontr)
    assume "\<not> (\<forall>k \<in> set (map fst commands). r cmd k \<le> 75)"
    then have "\<exists>k \<in> set (map fst commands). 75 < r cmd k" by (auto simp: not_le)
    from first_max_split [OF this] obtain pre key post where
      "map fst commands = pre @ key # post" "75 < r cmd key"
      "\<forall>k \<in> set pre. r cmd k < r cmd key" "\<forall>k \<in> set post. r cmd k \<le> r cmd key"
      by blast
    then have "fuzzy_match r cmd = Some key"
      using best_match_loop_first_max [of pre r cmd key 0 post None]
      by (simp add: fuzzy_match_def)
    with n show False by simp
  qed
next
  assume "\<forall>k \<in> set (map fst commands). r cmd k \<le> 75"
  then show "fuzzy_match r cmd = None"
    using best_match_loop_none_above [of "map fst commands" r cmd 0 None]
    by (simp add: fuzzy_match_def)
qed

lemma fuzzy_match_Some:
  assumes "fuzzy_match r cmd = Some key"
  shows "\<exists>pre post. map fst commands = pre @ key # post \<and> 75 < r cmd key
     \<and> (\<forall>k \<in> set pre. r cmd k < r cmd key) \<and> (\<forall>k \<in> set post. r cmd k \<le> r cmd key)"
proof -
  from assms have "\<not> (\<forall>k \<in> set (map fst commands). r cmd k \<le> 75)"
    using fuzzy_match_None [of r cmd] by simp
  then have "\<exists>k \<in> set (map fst commands). 75 < r cmd k" by (auto simp: not_le)
  from first_max_split [OF this] obtain pre key' post where
    s: "map fst commands = pre @ key' # post" "75 < r cmd key'"
      "\<forall>k \<in> set pre. r cmd k < r cmd key'" "\<forall>k \<in> set post. r cmd k \<le> r cmd key'"
    by blast
  then have "fuzzy_match r cmd = Some key'"
    using best_match_loop_first_max [of pre r cmd key' 0 post None]
    by (simp add: fuzzy_match_def)
  with assms have "key' = key" by simp
  with s show ?thesis by blast
qed


lemma commands_keys_nonempty: "[] \<notin> set (map fst commands)"
  by (simp add: commands_def)

lemma commands_lookup:
  "key \<in> set (map fst commands) \<Longrightarrow> \<exists>c. map_of commands key = Some c"
  by (cases "map_of commands key") (auto simp: map_of_eq_None_iff)

lemma handle_command_fuzzy:
  assumes "fuzzy_match (ratio cv) (lower (strip command)) = Some key"
  shows "\<exists>c. map_of commands key = Some c
     \<and> handle_command cv command st = run_command cv c (log_command command st)"
proof -
  from fuzzy_match_Some [OF assms] obtain pre post where
    "map fst commands = pre @ key # post" by blast
  then have k: "key \<in> set (map fst commands)" by (simp only: set_append list.set) simp
  with commands_keys_nonempty have "key \<noteq> []" by metis
  moreover from commands_lookup [OF k] obtain c where "map_of commands key = Some c" ..
  ultimately show ?thesis using assms by (simp add: handle_command_def Let_def)
qed

lemma handle_command_fallthrough:
  "fuzzy_match (ratio cv) (lower (strip command)) = None \<Longrightarrow>
   handle_command cv command st = parameterized cv (lower (strip command)) (log_command command st)"
  by (simp add: handle_command_def Let_def)

lemma grey_scale_match: "fuzzy_match fuzz_ratio ''grey scale'' = Some ''grayscale''"
  by code_simp

lemma grey_scale_score: "fuzz_ratio ''grey scale'' ''grayscale'' = 84"
  by code_simp

lemma grey_scale_normal: "lower (strip ''grey scale'') = ''grey scale''"
  by code_simp

lemma grayscale_command: "map_of commands ''grayscale'' = Some (Edit Grayscale)"
  by (simp add: commands_def)

text \<open>
  Claim C5. For every utterance, trimmed and lower-cased, the fuzzy phase comes first.
  It finds no keyword exactly when every keyword scores at most 75, and only then does
  \<open>handle_command\<close> go on to the parameterized patterns. Otherwise it selects a keyword
  that scores above 75, at least as high as every keyword after it in the enumeration
  and strictly higher than every keyword before it, and \<open>handle_command\<close> runs the
  function of that keyword. With fuzzywuzzy's score, \<open>grey scale\<close> scores 84 against
  \<open>grayscale\<close> and resolves to the grayscale operation.
\<close>

theorem fuzzy_phase_runs_first:
  "(fuzzy_match (ratio cv) (lower (strip command)) = None \<longleftrightarrow>
      (\<forall>k \<in> set (map fst commands). ratio cv (lower (strip command)) k \<le> 75))
   \<and> (\<forall>key. fuzzy_match (ratio cv) (lower (strip command)) = Some key \<longrightarrow>
        (\<exists>pre post c. map fst commands = pre @ key # post
          \<and> 75 < ratio cv (lower (strip command)) key
          \<and> (\<forall>k \<in> set pre. ratio cv (lower (strip command)) k
                < ratio cv (lower (strip command)) key)
          \<and> (\<forall>k \<in> set post. ratio cv (lower (strip command)) k
                \<le> ratio cv (lower (strip command)) key)
          \<and> map_of commands key = Some c
          \<and> handle_command cv command st = run_command cv c (log_command command st)))
   \<and> (fuzzy_match (ratio cv) (lower (strip command)) = None \<longrightarrow>
        handle_command cv command st =
          parameterized cv (lower (strip command)) (log_command command st))
   \<and> fuzz_ratio ''grey scale'' ''grayscale'' = 84
   \<and> (ratio cv = fuzz_ratio \<longrightarrow>
        handle_command cv ''grey scale'' st =
          Inr (apply_grayscale cv (log_command ''grey scale'' st)))"
proof (intro conjI allI impI)
  show "fuzzy_match (ratio cv) (lower (strip command)) = None \<longleftrightarrow>
      (\<forall>k \<in> set (map fst commands). ratio cv (lower (strip command)) k \<le> 75)"
    by (rule fuzzy_match_None)
next
  fix key assume k: "fuzzy_match (ratio cv) (lower (strip command)) = Some key"
  from fuzzy_match_Some [OF k] handle_command_fuzzy [OF k, of st]
  show "\<exists>pre post c. map fst commands = pre @ key # post
          \<and> 75 < ratio cv (lower (strip command)) key
          \<and> (\<forall>k \<in> set pre. ratio cv (lower (strip command)) k
                < ratio cv (lower (strip command)) key)
          \<and> (\<forall>k \<in> set post. ratio cv (lower (strip command)) k
                \<le> ratio cv (lower (strip command)) key)
          \<and> map_of commands key = Some c
          \<and> handle_command cv command st = run_command cv c (log_command command st)"
    by blast
next
  assume "fuzzy_match (ratio cv) (lower (strip command)) = None"
  then show "handle_command cv command st =
          parameterized cv (lower (strip command)) (log_command command st)"
    by (rule handle_command_fallthrough)
next
  show "fuzz_ratio ''grey scale'' ''grayscale'' = 84" by (rule grey_scale_score)
next
  assume r: "ratio cv = fuzz_ratio"
  have "fuzzy_match (ratio cv) (lower (strip ''grey scale'')) = Some ''grayscale''"
    by (simp only: r grey_scale_normal grey_scale_match)
  from handle_command_fuzzy [OF this, of st]
  show "handle_command cv ''grey scale'' st =
          Inr (apply_grayscale cv (log_command ''grey scale'' st))"
    by (simp add: grayscale_command)
qed

lemma Grey_Scale_match: "fuzzy_match fuzz_ratio (lower (strip ''  Grey Scale '')) = Some ''grayscale''"
  by code_simp

lemma xyzzy_match: "fuzzy_match fuzz_ratio (lower (strip ''xyzzy'')) = None"
  by code_simp

lemma xyzzy_normal: "lower (strip ''xyzzy'') = ''xyzzy''"
  by code_simp

lemma xyzzy_parameterized: "parameterized cv ''xyzzy'' st = Inr st"
proof -
  have "search re_brightness ''xyzzy'' = None" "search re_contrast ''xyzzy'' = None"
    "search re_saturation ''xyzzy'' = None" "search re_hue ''xyzzy'' = None"
    by code_simp+
  then show ?thesis by (simp add: parameterized_def)
qed

theorem fuzzy_phase_runs_first_witness:
  "fuzzy_match (ratio test_cv) (lower (strip ''  Grey Scale '')) = Some ''grayscale''
   \<and> handle_command test_cv ''  Grey Scale '' gray_session =
       Inr (apply_grayscale test_cv (log_command ''  Grey Scale '' gray_session))
   \<and> ratio test_cv = fuzz_ratio
   \<and> handle_command test_cv ''grey scale'' gray_session =
       Inr (apply_grayscale test_cv (log_command ''grey scale'' gray_session))
   \<and> fuzzy_match (ratio test_cv) (lower (strip ''xyzzy'')) = None
   \<and> handle_command test_cv ''xyzzy'' gray_session = Inr (log_command ''xyzzy'' gray_session)"
proof -
  have r: "ratio test_cv = fuzz_ratio" by (simp add: test_cv_simps)
  have m1: "fuzzy_match (ratio test_cv) (lower (strip ''  Grey Scale '')) = Some ''grayscale''"
    by (simp only: r Grey_Scale_match)
  have m2: "fuzzy_match (ratio test_cv) (lower (strip ''xyzzy'')) = None"
    by (simp only: r xyzzy_match)
  note t1 = fuzzy_phase_runs_first [of test_cv "''  Grey Scale ''" gray_session]
  note t2 = fuzzy_phase_runs_first [of test_cv "''xyzzy''" gray_session]
  from t1 m1 obtain c where "map_of commands ''grayscale'' = Some c"
    "handle_command test_cv ''  Grey Scale '' gray_session =
       run_command test_cv c (log_command ''  Grey Scale '' gray_session)"
    by blast
  then have h1: "handle_command test_cv ''  Grey Scale '' gray_session =
       Inr (apply_grayscale test_cv (log_command ''  Grey Scale '' gray_session))"
    by (auto simp: grayscale_command)
  from t1 r have h2: "handle_command test_cv ''grey scale'' gray_session =
       Inr (apply_grayscale test_cv (log_command ''grey scale'' gray_session))"
    by blast
  from t2 m2 have "handle_command test_cv ''xyzzy'' gray_session =
      parameterized test_cv (lower (strip ''xyzzy'')) (log_command ''xyzzy'' gray_session)"
    by blast
  then have h3: "handle_command test_cv ''xyzzy'' gray_session
      = Inr (log_command ''xyzzy'' gray_session)"
    by (simp only: xyzzy_normal xyzzy_parameterized)
  from r m1 m2 h1 h2 h3 show ?thesis by blast
qed


section \<open>Parameterized extraction\<close>

lemma try_down_Some:
  "try_down lo n f = Some r \<Longrightarrow> \<exists>m. lo \<le> m \<and> m \<le> n \<and> f m = Some r"
proof (induction n)
  case 0
  then show ?case by (auto split: if_splits)
next
  case (Suc n)
  show ?case
  proof (cases "f (Suc n)")
    case None
    with Suc.prems have "try_down lo n f = Some r" by (simp split: if_splits)
    from Suc.IH [OF this] show ?thesis by (auto intro: le_SucI)
  next
    case (Some r')
    with Suc.prems have "\<not> Suc n < lo" "r' = r" by (auto split: if_splits)
    with Some show ?thesis by (intro exI [of _ "Suc n"]) simp
  qed
qed

lemma rmatch_continues:
  "rmatch re inp cap k = Some r \<Longrightarrow> \<exists>rest cap'. k rest cap' = Some r"
proof (induction re inp cap k rule: rmatch.induct)
  case (1 s inp cap k)
  then show ?case by (auto split: option.splits)
next
  case (2 a b inp cap k)
  then show ?case by (cases "rmatch a inp cap k") auto
next
  case (3 a b inp cap k)
  from "3.prems" have "rmatch a inp cap (\<lambda>rest cap'. rmatch b rest cap' k) = Some r" by simp
  from "3.IH"(2) [OF this] obtain rest cap' where "rmatch b rest cap' k = Some r" by blast
  from "3.IH"(1) [OF this] show ?case .
next
  case (4 a inp cap k)
  then show ?case by (cases "rmatch a inp cap k") auto
next
  case (5 c inp cap k)
  then show ?case by (auto dest!: try_down_Some)
next
  case (6 c inp cap k)
  then show ?case by (auto dest!: try_down_Some)
next
  case (7 a inp cap k)
  from "7.prems" "7.IH" show ?case by auto
qed

lemma take_takeWhile:
  "m \<le> length (takeWhile P xs) \<Longrightarrow> take m xs = take m (takeWhile P xs)"
  by (metis append_eq_conv_conj takeWhile_dropWhile_id take_append take_all_iff
      append_take_drop_id length_take min.absorb2 take_take)

lemma digits_prefix:
  assumes "1 \<le> m" "m \<le> length (takeWhile py_isdecimal xs)"
  shows "take m xs \<noteq> [] \<and> list_all py_isdecimal (take m xs)"
proof -
  have t: "take m xs = take m (takeWhile py_isdecimal xs)"
    using assms(2) by (rule take_takeWhile)
  have "set (take m (takeWhile py_isdecimal xs)) \<subseteq> set (takeWhile py_isdecimal xs)"
    by (rule set_take_subset)
  then have "list_all py_isdecimal (take m xs)"
    unfolding t list_all_iff by (auto dest: set_takeWhileD)
  moreover have "take m xs \<noteq> []"
    using assms unfolding t by auto
  ultimately show ?thesis by simp
qed

lemma py_int_digits:
  "ds \<noteq> [] \<Longrightarrow> list_all py_isdecimal ds \<Longrightarrow> py_int (Some ds) = Inr (int (digits_value ds))"
  by (cases ds) (auto simp: py_int_def py_isdecimal_def Let_def)

lemma py_int_minus_digits:
  "ds \<noteq> [] \<Longrightarrow> list_all py_isdecimal ds \<Longrightarrow>
   py_int (Some (CHR ''-'' # ds)) = Inr (- int (digits_value ds))"
  by (simp add: py_int_def Let_def)


lemma in_class_Digit: "in_class Digit = py_isdecimal"
  by (rule ext) simp

lemma number_group:
  assumes "rmatch (Group (Seq (Opt (Lit ''-'')) (Plus Digit))) inp cap (\<lambda>rest cap. Some cap)
           = Some g"
  shows "\<exists>n. py_int g = Inr n"
proof (cases "strip_prefix ''-'' inp")
  case None
  with assms have "try_down 1 (length (takeWhile py_isdecimal inp))
      (\<lambda>n. Some (Some (take (length inp - length (drop n inp)) inp))) = Some g"
    by (simp add: in_class_Digit)
  from try_down_Some [OF this] obtain m where
    m: "1 \<le> m" "m \<le> length (takeWhile py_isdecimal inp)"
    and g: "g = Some (take (length inp - length (drop m inp)) inp)"
    by auto
  have "m \<le> length inp"
    using m(2) length_takeWhile_le [of py_isdecimal inp] by simp
  then have "g = Some (take m inp)" using g by simp
  with digits_prefix [OF m] show ?thesis by (simp add: py_int_digits)
next
  case (Some rest)
  then have inp: "inp = CHR ''-'' # rest"
    by (cases inp) (auto split: if_splits)
  have "takeWhile py_isdecimal inp = []"
    unfolding inp by (simp add: py_isdecimal_def)
  then have "try_down 1 (length (takeWhile py_isdecimal inp))
      (\<lambda>n. Some (Some (take (length inp - length (drop n inp)) inp))) = None"
    by simp
  with assms Some have "try_down 1 (length (takeWhile py_isdecimal rest))
      (\<lambda>n. Some (Some (take (length inp - length (drop n rest)) inp))) = Some g"
    by (simp add: in_class_Digit split: option.splits)
  from try_down_Some [OF this] obtain m where
    m: "1 \<le> m" "m \<le> length (takeWhile py_isdecimal rest)"
    and g: "g = Some (take (length inp - length (drop m rest)) inp)"
    by auto
  have "m \<le> length rest"
    using m(2) length_takeWhile_le [of py_isdecimal rest] by simp
  then have "g = Some (CHR ''-'' # take m rest)" using g by (simp add: inp)
  with digits_prefix [OF m] show ?thesis by (simp add: py_int_minus_digits)
qed

lemma by_number_group:
  assumes "rmatch by_number inp cap (\<lambda>rest cap. Some cap) = Some g"
  shows "\<exists>n. py_int g = Inr n"
proof -
  let ?num = "Group (Seq (Opt (Lit ''-'')) (Plus Digit))"
  let ?k = "\<lambda>(rest :: string) (cap :: string option). Some cap"
  from assms have "rmatch (Star Space) inp cap
      (\<lambda>rest cap'. rmatch (Seq (Opt (Lit ''by'')) (Seq (Star Space) ?num)) rest cap' ?k) = Some g"
    by (simp add: by_number_def)
  from rmatch_continues [OF this] obtain r1 c1 where
    "rmatch (Seq (Opt (Lit ''by'')) (Seq (Star Space) ?num)) r1 c1 ?k = Some g" by blast
  then have "rmatch (Opt (Lit ''by'')) r1 c1
      (\<lambda>rest cap'. rmatch (Seq (Star Space) ?num) rest cap' ?k) = Some g"
    by simp
  from rmatch_continues [OF this] obtain r2 c2 where
    "rmatch (Seq (Star Space) ?num) r2 c2 ?k = Some g" by blast
  then have "rmatch (Star Space) r2 c2 (\<lambda>rest cap'. rmatch ?num rest cap' ?k) = Some g"
    by simp
  from rmatch_continues [OF this] obtain r3 c3 where
    "rmatch ?num r3 c3 ?k = Some g" by blast
  then show ?thesis by (rule number_group)
qed

lemma search_keyword_number:
  "search (Seq kw by_number) cmd = Some g \<Longrightarrow> \<exists>n. py_int g = Inr n"
proof (induction cmd)
  case Nil
  then have "rmatch kw [] None (\<lambda>rest cap'. rmatch by_number rest cap' (\<lambda>rest cap. Some cap))
      = Some g" by simp
  from rmatch_continues [OF this] show ?case by (auto dest: by_number_group)
next
  case (Cons c cs)
  show ?case
  proof (cases "rmatch (Seq kw by_number) (c # cs) None (\<lambda>rest cap. Some cap)")
    case None
    with Cons show ?thesis by simp
  next
    case (Some m)
    with Cons.prems have "m = g" by simp
    with Some have "rmatch kw (c # cs) None
        (\<lambda>rest cap'. rmatch by_number rest cap' (\<lambda>rest cap. Some cap)) = Some g" by simp
    from rmatch_continues [OF this] show ?thesis by (auto dest: by_number_group)
  qed
qed

lemma pattern_numbers:
  "search re_brightness cmd = Some g \<Longrightarrow> \<exists>n. py_int g = Inr n"
  "search re_contrast cmd = Some g \<Longrightarrow> \<exists>n. py_int g = Inr n"
  "search re_saturation cmd = Some g \<Longrightarrow> \<exists>n. py_int g = Inr n"
  "search re_hue cmd = Some g \<Longrightarrow> \<exists>n. py_int g = Inr n"
  unfolding re_brightness_def re_contrast_def re_saturation_def re_hue_def
  by (rule search_keyword_number; assumption)+


lemma brightness_by_50:
  "lower (strip ''brightness by 50'') = ''brightness by 50''"
  "fuzzy_match fuzz_ratio ''brightness by 50'' = None"
  "search re_brightness ''brightness by 50'' = Some (Some ''50'')"
  "py_int (Some ''50'') = Inr 50"
  by code_simp+

lemma hue_5_contrast_7:
  "search re_brightness ''hue 5 contrast 7'' = None"
  "search re_contrast ''hue 5 contrast 7'' = Some (Some ''7'')"
  "search re_hue ''hue 5 contrast 7'' = Some (Some ''5'')"
  "py_int (Some ''7'') = Inr 7"
  by code_simp+

lemma synonyms:
  "search re_brightness ''brighten -20'' = Some (Some ''-20'')"
  "py_int (Some ''-20'') = Inr (- 20)"
  "search re_saturation ''saturate by 120'' = Some (Some ''120'')"
  "py_int (Some ''120'') = Inr 120"
  by code_simp+

text \<open>
  Claim C6. When the fuzzy phase finds no keyword, \<open>handle_command\<close> searches the four
  patterns in the order brightness, contrast, saturation, hue. The first that matches
  decides: its group, an optional minus sign and digits, always converts to an
  integer, which is passed to that slider, and a later pattern is consulted only when
  every earlier one found nothing (in \<open>hue 5 contrast 7\<close> both the hue and the contrast
  pattern match, and contrast gets 7). When none matches the session is left as
  logged. With fuzzywuzzy's score no keyword clears the threshold on
  \<open>brightness by 50\<close>, and the brightness slider is set to 50.
\<close>

theorem parameterized_in_priority_order:
  "(fuzzy_match (ratio cv) (lower (strip command)) = None \<longrightarrow>
      handle_command cv command st =
        parameterized cv (lower (strip command)) (log_command command st))
   \<and> (\<forall>g. search re_brightness cmd = Some g \<longrightarrow>
          (\<exists>n. py_int g = Inr n \<and> parameterized cv cmd st = Inr (set_brightness_slider n st)))
   \<and> (\<forall>g. search re_brightness cmd = None \<longrightarrow> search re_contrast cmd = Some g \<longrightarrow>
          (\<exists>n. py_int g = Inr n \<and> parameterized cv cmd st = Inr (set_contrast_slider cv n st)))
   \<and> (\<forall>g. search re_brightness cmd = None \<longrightarrow> search re_contrast cmd = None \<longrightarrow>
          search re_saturation cmd = Some g \<longrightarrow>
          (\<exists>n. py_int g = Inr n \<and> parameterized cv cmd st = Inr (set_saturation_slider cv n st)))
   \<and> (\<forall>g. search re_brightness cmd = None \<longrightarrow> search re_contrast cmd = None \<longrightarrow>
          search re_saturation cmd = None \<longrightarrow> search re_hue cmd = Some g \<longrightarrow>
          (\<exists>n. py_int g = Inr n \<and> parameterized cv cmd st = Inr (set_hue_slider cv n st)))
   \<and> (search re_brightness cmd = None \<longrightarrow> search re_contrast cmd = None \<longrightarrow>
          search re_saturation cmd = None \<longrightarrow> search re_hue cmd = None \<longrightarrow>
          parameterized cv cmd st = Inr st)
   \<and> search re_brightness ''brightness by 50'' = Some (Some ''50'')
   \<and> py_int (Some ''50'') = Inr 50
   \<and> (ratio cv = fuzz_ratio \<longrightarrow>
          fuzzy_match (ratio cv) (lower (strip ''brightness by 50'')) = None
          \<and> handle_command cv ''brightness by 50'' st =
              Inr (set_brightness_slider 50 (log_command ''brightness by 50'' st)))
   \<and> search re_hue ''hue 5 contrast 7'' = Some (Some ''5'')
   \<and> search re_contrast ''hue 5 contrast 7'' = Some (Some ''7'')
   \<and> parameterized cv ''hue 5 contrast 7'' st = Inr (set_contrast_slider cv 7 st)
   \<and> search re_brightness ''brighten -20'' = Some (Some ''-20'')
   \<and> py_int (Some ''-20'') = Inr (- 20)
   \<and> search re_saturation ''saturate by 120'' = Some (Some ''120'')"
proof -
  have b: "\<forall>g. search re_brightness cmd = Some g \<longrightarrow>
          (\<exists>n. py_int g = Inr n \<and> parameterized cv cmd st = Inr (set_brightness_slider n st))"
    using pattern_numbers(1) [of cmd] by (fastforce simp: parameterized_def)
  have c: "\<forall>g. search re_brightness cmd = None \<longrightarrow> search re_contrast cmd = Some g \<longrightarrow>
          (\<exists>n. py_int g = Inr n \<and> parameterized cv cmd st = Inr (set_contrast_slider cv n st))"
    using pattern_numbers(2) [of cmd] by (fastforce simp: parameterized_def)
  have s: "\<forall>g. search re_brightness cmd = None \<longrightarrow> search re_contrast cmd = None \<longrightarrow>
          search re_saturation cmd = Some g \<longrightarrow>
          (\<exists>n. py_int g = Inr n \<and> parameterized cv cmd st = Inr (set_saturation_slider cv n st))"
    using pattern_numbers(3) [of cmd] by (fastforce simp: parameterized_def)
  have h: "\<forall>g. search re_brightness cmd = None \<longrightarrow> search re_contrast cmd = None \<longrightarrow>
          search re_saturation cmd = None \<longrightarrow> search re_hue cmd = Some g \<longrightarrow>
          (\<exists>n. py_int g = Inr n \<and> parameterized cv cmd st = Inr (set_hue_slider cv n st))"
    using pattern_numbers(4) [of cmd] by (fastforce simp: parameterized_def)
  have n: "search re_brightness cmd = None \<longrightarrow> search re_contrast cmd = None \<longrightarrow>
          search re_saturation cmd = None \<longrightarrow> search re_hue cmd = None \<longrightarrow>
          parameterized cv cmd st = Inr st"
    by (simp add: parameterized_def)
  have f: "fuzzy_match (ratio cv) (lower (strip command)) = None \<longrightarrow>
      handle_command cv command st =
        parameterized cv (lower (strip command)) (log_command command st)"
    by (simp add: handle_command_fallthrough)
  have e1: "ratio cv = fuzz_ratio \<longrightarrow>
          fuzzy_match (ratio cv) (lower (strip ''brightness by 50'')) = None
          \<and> handle_command cv ''brightness by 50'' st =
              Inr (set_brightness_slider 50 (log_command ''brightness by 50'' st))"
  proof
    assume r: "ratio cv = fuzz_ratio"
    have m: "fuzzy_match (ratio cv) (lower (strip ''brightness by 50'')) = None"
      by (simp only: r brightness_by_50)
    have "parameterized cv ''brightness by 50'' (log_command ''brightness by 50'' st)
        = Inr (set_brightness_slider 50 (log_command ''brightness by 50'' st))"
      by (simp only: parameterized_def brightness_by_50 option.case sum.case)
    with handle_command_fallthrough [OF m, of st] m
    show "fuzzy_match (ratio cv) (lower (strip ''brightness by 50'')) = None
          \<and> handle_command cv ''brightness by 50'' st =
              Inr (set_brightness_slider 50 (log_command ''brightness by 50'' st))"
      by (simp only: brightness_by_50)
  qed
  have e2: "parameterized cv ''hue 5 contrast 7'' st = Inr (set_contrast_slider cv 7 st)"
    by (simp only: parameterized_def hue_5_contrast_7 option.case sum.case)
  from f b c s h n e1 e2 brightness_by_50 hue_5_contrast_7 synonyms show ?thesis
    by blast
qed


lemma Brightness_by_50:
  "lower (strip '' Brightness by 50'') = ''brightness by 50''"
  by code_simp

lemma saturate_by_120:
  "search re_brightness ''saturate by 120'' = None"
  "search re_contrast ''saturate by 120'' = None"
  by code_simp+

lemma hue_minus_30:
  "search re_brightness ''hue -30'' = None"
  "search re_contrast ''hue -30'' = None"
  "search re_saturation ''hue -30'' = None"
  "search re_hue ''hue -30'' = Some (Some ''-30'')"
  "py_int (Some ''-30'') = Inr (- 30)"
  by code_simp+

lemma xyzzy_searches:
  "search re_brightness ''xyzzy'' = None" "search re_contrast ''xyzzy'' = None"
  "search re_saturation ''xyzzy'' = None" "search re_hue ''xyzzy'' = None"
  by code_simp+

theorem parameterized_in_priority_order_witness:
  "fuzzy_match (ratio test_cv) (lower (strip '' Brightness by 50'')) = None
   \<and> handle_command test_cv '' Brightness by 50'' gray_session =
       Inr (set_brightness_slider 50 (log_command '' Brightness by 50'' gray_session))
   \<and> current_image (set_brightness_slider 50 (log_command '' Brightness by 50'' gray_session))
       = Some (Gray [[60]])
   \<and> ratio test_cv = fuzz_ratio
   \<and> handle_command test_cv ''brightness by 50'' gray_session =
       Inr (set_brightness_slider 50 (log_command ''brightness by 50'' gray_session))
   \<and> parameterized test_cv ''hue 5 contrast 7'' gray_session =
       Inr (set_contrast_slider test_cv 7 gray_session)
   \<and> parameterized test_cv ''saturate by 120'' gray_session =
       Inr (set_saturation_slider test_cv 120 gray_session)
   \<and> parameterized test_cv ''hue -30'' gray_session =
       Inr (set_hue_slider test_cv (- 30) gray_session)
   \<and> parameterized test_cv ''xyzzy'' gray_session = Inr gray_session"
proof -
  have r: "ratio test_cv = fuzz_ratio" by (simp add: test_cv_simps)
  have m: "fuzzy_match (ratio test_cv) (lower (strip '' Brightness by 50'')) = None"
    by (simp only: r Brightness_by_50 brightness_by_50)
  note t1 = parameterized_in_priority_order
    [of test_cv "'' Brightness by 50''" gray_session "''brightness by 50''"]
  note t2 = parameterized_in_priority_order
    [of test_cv "''xyzzy''" "log_command '' Brightness by 50'' gray_session"
      "''brightness by 50''"]
  note t3 = parameterized_in_priority_order
    [of test_cv "''xyzzy''" gray_session "''hue 5 contrast 7''"]
  note t4 = parameterized_in_priority_order
    [of test_cv "''xyzzy''" gray_session "''saturate by 120''"]
  note t5 = parameterized_in_priority_order
    [of test_cv "''xyzzy''" gray_session "''hue -30''"]
  note t6 = parameterized_in_priority_order
    [of test_cv "''xyzzy''" gray_session "''xyzzy''"]
  from t1 m have "handle_command test_cv '' Brightness by 50'' gray_session =
      parameterized test_cv (lower (strip '' Brightness by 50''))
        (log_command '' Brightness by 50'' gray_session)"
    by blast
  moreover from t2 brightness_by_50(3,4)
  have "parameterized test_cv ''brightness by 50''
      (log_command '' Brightness by 50'' gray_session)
      = Inr (set_brightness_slider 50 (log_command '' Brightness by 50'' gray_session))"
    by fastforce
  ultimately have h1: "handle_command test_cv '' Brightness by 50'' gray_session =
       Inr (set_brightness_slider 50 (log_command '' Brightness by 50'' gray_session))"
    by (simp only: Brightness_by_50)
  have img: "current_image (set_brightness_slider 50
      (log_command '' Brightness by 50'' gray_session)) = Some (Gray [[60]])"
    by (simp add: set_brightness_slider_def slider_set_value_def log_command_def
        gray_session_def load_image_from_path_def init_session_def apply_brightness_def
        clamp_def convertScaleAbs_beta_def Let_def)
  from t1 r have h2: "handle_command test_cv ''brightness by 50'' gray_session =
       Inr (set_brightness_slider 50 (log_command ''brightness by 50'' gray_session))"
    by blast
  from t3 have h3: "parameterized test_cv ''hue 5 contrast 7'' gray_session =
       Inr (set_contrast_slider test_cv 7 gray_session)"
    by blast
  from t4 saturate_by_120 synonyms(3,4)
  have h4: "parameterized test_cv ''saturate by 120'' gray_session =
       Inr (set_saturation_slider test_cv 120 gray_session)"
    by fastforce
  from t5 hue_minus_30
  have h5: "parameterized test_cv ''hue -30'' gray_session =
       Inr (set_hue_slider test_cv (- 30) gray_session)"
    by fastforce
  from t6 xyzzy_searches
  have h6: "parameterized test_cv ''xyzzy'' gray_session = Inr gray_session"
    by blast
  from m h1 img r h2 h3 h4 h5 h6 show ?thesis by blast
qed


end
